theory Spec2Isabelle
  imports Main "HOL-Library.Word"
begin

section \<open>The cache plugin channel (cvmfs/cache_plugin/channel.cc)\<close>

subsection \<open>Data model\<close>

type_synonym uint64 = "64 word"
type_synonym uint32 = "32 word"
type_synonym byte = "8 word"

text \<open>
  The status enumeration of the message schema. Its declaration is not part of
  channel.cc; the constructors are the statuses that channel.cc names
  (\<open>STATUS_OK\<close>, \<open>STATUS_MALFORMED\<close>, \<open>STATUS_OUTOFBOUNDS\<close>), those the
  specification lists for the backend, and \<open>STATUS_OTHER\<close> for the remaining
  members of the enumeration.
\<close>

datatype EnumStatus =
    STATUS_OK
  | STATUS_MALFORMED
  | STATUS_OUTOFBOUNDS
  | STATUS_IOERR
  | STATUS_NOSUPPORT
  | STATUS_NOSPACE
  | STATUS_NOENTRY
  | STATUS_OTHER nat

text \<open>The object type tag of the message schema, kept as its number.\<close>

type_synonym EnumObjectType = nat

text \<open>
  \<open>UniqueRequest(session_id, req_id)\<close>, the key of the transaction registry.
\<close>

type_synonym UniqueRequest = "uint64 \<times> uint64"

text \<open>
  \<open>ObjectInfo\<close> and \<open>Info\<close>, the structures the backend fills. \<open>'h\<close> is the
  parsed object identifier (\<open>shash::Any\<close>).
\<close>

record 'h ObjectInfo =
  info_id :: 'h
  info_size :: uint64
  info_object_type :: EnumObjectType
  info_pinned :: bool
  info_description :: string

record Info =
  size_bytes :: uint64
  used_bytes :: uint64
  pinned_bytes :: uint64
  no_shrink :: bool

definition kSizeUnknown :: uint64 where
  "kSizeUnknown = - 1"

text \<open>
  The typed messages a frame can carry, as the dispatcher tells them apart by
  their type name. \<open>'mh\<close> is the wire form of an object identifier
  (\<open>cvmfs::MsgHash\<close>). \<open>MsgOther\<close> stands for any message whose type name is
  none of those the dispatcher knows.
\<close>

datatype 'mh Request =
    MsgHandshake
  | MsgQuit
  | MsgRefcountReq (req_id: uint64) (object_id: 'mh) (change_by: int)
  | MsgObjectInfoReq (req_id: uint64) (object_id: 'mh)
  | MsgReadReq (req_id: uint64) (object_id: 'mh) (offset: uint64) (size_req: uint32)
  | MsgStoreReq (session_id: uint64) (req_id: uint64) (object_id: 'mh)
      (part_nr: uint64) (last_part: bool)
      (expected_size: "uint64 option") (object_type: "EnumObjectType option")
      (description: "string option")
  | MsgStoreAbortReq (session_id: uint64) (req_id: uint64)
  | MsgInfoReq (req_id: uint64)
  | MsgShrinkReq (req_id: uint64) (shrink_to: uint64)
  | MsgListReq (req_id: uint64) (listing_id: uint64) (list_object_type: EnumObjectType)
  | MsgOther string

text \<open>A received frame: the typed message, the attachment and its size.\<close>

record 'mh Frame =
  msg_typed :: "'mh Request"
  att_size :: uint32
  attachment :: "byte list"

record 'mh MsgListRecord =
  rec_hash :: 'mh
  rec_pinned :: bool
  rec_description :: string

text \<open>
  The replies. A field that a handler leaves unset is \<open>None\<close>; the attachment
  of a read reply is part of the frame that carries it.
\<close>

datatype 'mh Reply =
    MsgHandshakeAck (reply_status: EnumStatus) (ack_name: string) (ack_protocol_version: uint32)
      (ack_max_object_size: uint32) (ack_session_id: uint64) (ack_capabilities: uint64)
  | MsgRefcountReply (reply_req_id: uint64) (reply_status: EnumStatus)
  | MsgObjectInfoReply (reply_req_id: uint64) (reply_status: EnumStatus)
      (reply_object_type: "EnumObjectType option") (reply_size: "uint64 option")
  | MsgReadReply (reply_req_id: uint64) (reply_status: EnumStatus)
      (reply_attachment: "byte list option")
  | MsgStoreReply (reply_req_id: uint64) (reply_part_nr: uint64) (reply_status: EnumStatus)
  | MsgInfoReply (reply_req_id: uint64) (reply_info: Info) (reply_status: EnumStatus)
  | MsgShrinkReply (reply_req_id: uint64) (reply_used_bytes: uint64) (reply_status: EnumStatus)
  | MsgListReply (reply_req_id: uint64) (reply_listing_id: uint64) (is_last_part: bool)
      (list_record: "'mh MsgListRecord list") (reply_status: EnumStatus)

text \<open>
  The calls the channel makes on the backend, as a log (most recent call
  first). The log is not a member of the class: it records, for the claims
  about which backend operations a handler invokes, each virtual call the
  handler makes, with the status the call returned. The transaction calls also
  record the registry key of the request on whose behalf they were made.
\<close>

datatype 'h BackendCall =
    CallChangeRefcount 'h int EnumStatus
  | CallGetObjectInfo 'h EnumStatus
  | CallPread 'h uint64 uint32 EnumStatus
  | CallStartTxn UniqueRequest uint64 EnumStatus
  | CallWriteTxn UniqueRequest uint64 EnumStatus
  | CallCommitTxn UniqueRequest uint64 EnumStatus
  | CallAbortTxn UniqueRequest uint64 EnumStatus
  | CallGetInfo EnumStatus
  | CallShrink uint64 EnumStatus
  | CallListingBegin uint64 EnumObjectType EnumStatus
  | CallListingNext uint64 EnumStatus
  | CallListingEnd uint64 EnumStatus

text \<open>
  The members of \<open>CachePlugin\<close> that the handlers read and write, named as
  in the class without the trailing underscore. \<open>backend\<close> is the state of the
  derived class that implements the virtual operations; \<open>calls\<close> is the log
  described above.
\<close>

record ('b, 'h) CachePlugin =
  capabilities :: uint64
  max_object_size :: uint32
  name :: string
  next_session_id :: uint64
  next_txn_id :: uint64
  next_lst_id :: uint64
  txn_ids :: "UniqueRequest \<rightharpoonup> uint64"
  connections :: "int set"
  backend :: 'b
  calls :: "'h BackendCall list"

text \<open>
  What channel.cc uses and does not define: the transport's hash conversion,
  the constants of channel.h, and the pure virtual operations of the backend.
  They are parameters of the model (\<open>default_ObjectInfo\<close> is the
  default-constructed \<open>ObjectInfo\<close>). An output parameter of the C++ signature is
  a component of the result; \<open>Pread\<close> receives the requested size and returns
  the size read and the buffer.
\<close>

record ('b, 'mh, 'h) Port =
  ParseMsgHash :: "'mh \<Rightarrow> 'h option"
  FillMsgHash :: "'h \<Rightarrow> 'mh"
  kPbProtocolVersion :: uint32
  kListingSize :: uint32
  sizeof_ObjectInfo :: nat
  default_ObjectInfo :: "'h ObjectInfo"
  ChangeRefcount :: "'h \<Rightarrow> int \<Rightarrow> 'b \<Rightarrow> EnumStatus \<times> 'b"
  GetObjectInfo :: "'h \<Rightarrow> 'b \<Rightarrow> EnumStatus \<times> 'h ObjectInfo \<times> 'b"
  Pread :: "'h \<Rightarrow> uint64 \<Rightarrow> uint32 \<Rightarrow> 'b \<Rightarrow> EnumStatus \<times> uint32 \<times> byte list \<times> 'b"
  StartTxn :: "'h \<Rightarrow> uint64 \<Rightarrow> 'h ObjectInfo \<Rightarrow> 'b \<Rightarrow> EnumStatus \<times> 'b"
  WriteTxn :: "uint64 \<Rightarrow> byte list \<Rightarrow> uint32 \<Rightarrow> 'b \<Rightarrow> EnumStatus \<times> 'b"
  CommitTxn :: "uint64 \<Rightarrow> 'b \<Rightarrow> EnumStatus \<times> 'b"
  AbortTxn :: "uint64 \<Rightarrow> 'b \<Rightarrow> EnumStatus \<times> 'b"
  GetInfo :: "'b \<Rightarrow> EnumStatus \<times> Info \<times> 'b"
  Shrink :: "uint64 \<Rightarrow> 'b \<Rightarrow> EnumStatus \<times> uint64 \<times> 'b"
  ListingBegin :: "uint64 \<Rightarrow> EnumObjectType \<Rightarrow> 'b \<Rightarrow> EnumStatus \<times> 'b"
  ListingNext :: "uint64 \<Rightarrow> 'b \<Rightarrow> EnumStatus \<times> 'h ObjectInfo \<times> 'b"
  ListingEnd :: "uint64 \<Rightarrow> 'b \<Rightarrow> EnumStatus \<times> 'b"

text \<open>
  How a call ends: it returns, an \<open>assert\<close> fails, the behaviour is undefined
  (an element read beyond the end of a vector), or it does not return.
\<close>

datatype 'a Outcome = Returns 'a | AssertionFailed | UndefinedBehaviour | Diverges

subsection \<open>Identifier allocator\<close>

text \<open>
  Modelled from the spec: \<open>NextSessionId\<close>, \<open>NextTxnId\<close>, \<open>NextLstId\<close> and
  the atomic primitives they use are declared in channel.h, which is not among
  the sources.
  The specification describes three independent monotonically increasing
  64-bit counters whose increment-and-return is atomic; the constructor in
  channel.cc initialises the three and increments the listing counter once, so
  that listing id zero is not used. Each function returns the counter's value
  and increments it.
\<close>

definition NextSessionId :: "('b, 'h) CachePlugin \<Rightarrow> uint64 \<times> ('b, 'h) CachePlugin" where
  "NextSessionId st = (next_session_id st, st\<lparr>next_session_id := next_session_id st + 1\<rparr>)"

definition NextTxnId :: "('b, 'h) CachePlugin \<Rightarrow> uint64 \<times> ('b, 'h) CachePlugin" where
  "NextTxnId st = (next_txn_id st, st\<lparr>next_txn_id := next_txn_id st + 1\<rparr>)"

definition NextLstId :: "('b, 'h) CachePlugin \<Rightarrow> uint64 \<times> ('b, 'h) CachePlugin" where
  "NextLstId st = (next_lst_id st, st\<lparr>next_lst_id := next_lst_id st + 1\<rparr>)"

text \<open>
  The constructor \<open>CachePlugin(capabilities)\<close>; the default maximal object
  size, the name and the initial state of the derived class are arguments.
\<close>

definition CachePlugin_ctor ::
  "uint64 \<Rightarrow> uint32 \<Rightarrow> string \<Rightarrow> 'b \<Rightarrow> ('b, 'h) CachePlugin" where
  "CachePlugin_ctor caps kDefaultMaxObjectSize nm b =
     \<lparr>capabilities = caps,
      max_object_size = kDefaultMaxObjectSize,
      name = nm,
      next_session_id = 0,
      next_txn_id = 0,
      next_lst_id = 0 + 1,
      txn_ids = Map.empty,
      connections = {},
      backend = b,
      calls = []\<rparr>"

subsection \<open>Request handlers\<close>

definition HandleHandshake ::
  "('b, 'mh, 'h) Port \<Rightarrow> ('b, 'h) CachePlugin \<Rightarrow> 'mh Reply \<times> ('b, 'h) CachePlugin" where
  "HandleHandshake W st =
     (case NextSessionId st of (sid, st1) \<Rightarrow>
        (MsgHandshakeAck STATUS_OK (name st) (kPbProtocolVersion W) (max_object_size st)
           sid (capabilities st), st1))"

definition HandleInfo ::
  "('b, 'mh, 'h) Port \<Rightarrow> 'mh Request \<Rightarrow> ('b, 'h) CachePlugin
     \<Rightarrow> 'mh Reply \<times> ('b, 'h) CachePlugin" where
  "HandleInfo W msg_req st =
     (case GetInfo W (backend st) of (status, info, b) \<Rightarrow>
        (MsgInfoReply (req_id msg_req) info status,
         st\<lparr>backend := b, calls := CallGetInfo status # calls st\<rparr>))"

definition HandleShrink ::
  "('b, 'mh, 'h) Port \<Rightarrow> 'mh Request \<Rightarrow> ('b, 'h) CachePlugin
     \<Rightarrow> 'mh Reply \<times> ('b, 'h) CachePlugin" where
  "HandleShrink W msg_req st =
     (case Shrink W (shrink_to msg_req) (backend st) of (status, used, b) \<Rightarrow>
        (MsgShrinkReply (req_id msg_req) used status,
         st\<lparr>backend := b, calls := CallShrink (shrink_to msg_req) status # calls st\<rparr>))"

definition HandleRefcount ::
  "('b, 'mh, 'h) Port \<Rightarrow> 'mh Request \<Rightarrow> ('b, 'h) CachePlugin
     \<Rightarrow> 'mh Reply \<times> ('b, 'h) CachePlugin" where
  "HandleRefcount W msg_req st =
     (case ParseMsgHash W (object_id msg_req) of
        None \<Rightarrow> (MsgRefcountReply (req_id msg_req) STATUS_MALFORMED, st)
      | Some oid \<Rightarrow>
          (case ChangeRefcount W oid (change_by msg_req) (backend st) of (status, b) \<Rightarrow>
             (MsgRefcountReply (req_id msg_req) status,
              st\<lparr>backend := b,
                 calls := CallChangeRefcount oid (change_by msg_req) status # calls st\<rparr>)))"

definition HandleObjectInfo ::
  "('b, 'mh, 'h) Port \<Rightarrow> 'mh Request \<Rightarrow> ('b, 'h) CachePlugin
     \<Rightarrow> 'mh Reply \<times> ('b, 'h) CachePlugin" where
  "HandleObjectInfo W msg_req st =
     (case ParseMsgHash W (object_id msg_req) of
        None \<Rightarrow> (MsgObjectInfoReply (req_id msg_req) STATUS_MALFORMED None None, st)
      | Some oid \<Rightarrow>
          (case GetObjectInfo W oid (backend st) of (status, info, b) \<Rightarrow>
             (if status = STATUS_OK
              then MsgObjectInfoReply (req_id msg_req) status
                     (Some (info_object_type info)) (Some (info_size info))
              else MsgObjectInfoReply (req_id msg_req) status None None,
              st\<lparr>backend := b, calls := CallGetObjectInfo oid status # calls st\<rparr>)))"

definition HandleRead ::
  "('b, 'mh, 'h) Port \<Rightarrow> 'mh Request \<Rightarrow> ('b, 'h) CachePlugin
     \<Rightarrow> 'mh Reply \<times> ('b, 'h) CachePlugin" where
  "HandleRead W msg_req st =
     (case ParseMsgHash W (object_id msg_req) of
        None \<Rightarrow> (MsgReadReply (req_id msg_req) STATUS_MALFORMED None, st)
      | Some oid \<Rightarrow>
          if size_req msg_req > max_object_size st
          then (MsgReadReply (req_id msg_req) STATUS_MALFORMED None, st)
          else
            (case Pread W oid (offset msg_req) (size_req msg_req) (backend st) of
               (status, nread, buffer, b) \<Rightarrow>
                 (MsgReadReply (req_id msg_req) status
                    (if status = STATUS_OK then Some (take (unat nread) buffer) else None),
                  st\<lparr>backend := b,
                     calls := CallPread oid (offset msg_req) (size_req msg_req) status # calls st\<rparr>)))"

definition HandleStoreAbort ::
  "('b, 'mh, 'h) Port \<Rightarrow> 'mh Request \<Rightarrow> ('b, 'h) CachePlugin
     \<Rightarrow> 'mh Reply \<times> ('b, 'h) CachePlugin" where
  "HandleStoreAbort W msg_req st =
     (let uniq_req = (session_id msg_req, req_id msg_req) in
      case txn_ids st uniq_req of
        None \<Rightarrow> (MsgStoreReply (req_id msg_req) 0 STATUS_MALFORMED, st)
      | Some txn_id \<Rightarrow>
          (case AbortTxn W txn_id (backend st) of (status, b) \<Rightarrow>
             (MsgStoreReply (req_id msg_req) 0 status,
              st\<lparr>backend := b,
                 calls := CallAbortTxn uniq_req txn_id status # calls st,
                 txn_ids := (txn_ids st)(uniq_req := None)\<rparr>)))"

text \<open>
  \<open>HandleStore\<close>, in the three parts of its body. First the \<open>ObjectInfo\<close>
  that part 1 of a store passes to \<open>StartTxn\<close>: the object id and the
  optional fields of the request that are present.
\<close>

definition StoreReq_info :: "('b, 'mh, 'h) Port \<Rightarrow> 'h \<Rightarrow> 'mh Request \<Rightarrow> 'h ObjectInfo" where
  "StoreReq_info W oid msg_req =
     (let info0 = (default_ObjectInfo W)\<lparr>info_id := oid\<rparr>;
          info1 = (case expected_size msg_req of
                     None \<Rightarrow> info0 | Some n \<Rightarrow> info0\<lparr>info_size := n\<rparr>);
          info2 = (case object_type msg_req of
                     None \<Rightarrow> info1 | Some t \<Rightarrow> info1\<lparr>info_object_type := t\<rparr>)
      in (case description msg_req of
            None \<Rightarrow> info2 | Some d \<Rightarrow> info2\<lparr>info_description := d\<rparr>))"

text \<open>
  The resolution of the transaction id from the key (from the declaration of
  \<open>uniq_req\<close> to the end of the \<open>if (part_nr == 1) ... else ...\<close>): an early
  return with its reply (\<open>Inl\<close>), or the transaction id and the state (\<open>Inr\<close>).
\<close>

definition HandleStore_txn ::
  "('b, 'mh, 'h) Port \<Rightarrow> 'h \<Rightarrow> 'mh Request \<Rightarrow> ('b, 'h) CachePlugin
     \<Rightarrow> ('mh Reply \<times> ('b, 'h) CachePlugin) + (uint64 \<times> ('b, 'h) CachePlugin)" where
  "HandleStore_txn W oid msg_req st =
     (let reply = MsgStoreReply (req_id msg_req) (part_nr msg_req);
          uniq_req = (session_id msg_req, req_id msg_req)
      in
        if part_nr msg_req = 1 then
          (if txn_ids st uniq_req \<noteq> None then Inl (reply STATUS_MALFORMED, st)
           else
             (case NextTxnId st of (txn_id, st1) \<Rightarrow>
               (case StartTxn W oid txn_id (StoreReq_info W oid msg_req) (backend st1) of
                  (status, b) \<Rightarrow>
                    (let st2 = st1\<lparr>backend := b,
                                 calls := CallStartTxn uniq_req txn_id status # calls st1\<rparr>
                     in if status \<noteq> STATUS_OK then Inl (reply status, st2)
                        else Inr (txn_id, st2\<lparr>txn_ids := (txn_ids st2)(uniq_req := Some txn_id)\<rparr>)))))
        else
          (case txn_ids st uniq_req of
             None \<Rightarrow> Inl (reply STATUS_MALFORMED, st)
           | Some txn_id \<Rightarrow> Inr (txn_id, st)))"

text \<open>
  The rest of the body: \<open>WriteTxn\<close> when the attachment is not empty, with
  its early return, then \<open>CommitTxn\<close> and \<open>Erase\<close> when the part is the last.
\<close>

definition HandleStore_write ::
  "('b, 'mh, 'h) Port \<Rightarrow> 'mh Request \<Rightarrow> 'mh Frame \<Rightarrow> uint64 \<Rightarrow> ('b, 'h) CachePlugin
     \<Rightarrow> 'mh Reply \<times> ('b, 'h) CachePlugin" where
  "HandleStore_write W msg_req frame txn_id st =
     (let reply = MsgStoreReply (req_id msg_req) (part_nr msg_req);
          uniq_req = (session_id msg_req, req_id msg_req);
          written =
            (if att_size frame > 0 then
               (case WriteTxn W txn_id (attachment frame) (att_size frame) (backend st) of
                  (status, b) \<Rightarrow>
                    (status, st\<lparr>backend := b,
                                 calls := CallWriteTxn uniq_req txn_id status # calls st\<rparr>))
             else (STATUS_OK, st))
      in
        (case written of (wstatus, st1) \<Rightarrow>
           if wstatus \<noteq> STATUS_OK then (reply wstatus, st1)
           else if last_part msg_req then
             (case CommitTxn W txn_id (backend st1) of (status, b) \<Rightarrow>
                (reply status,
                 st1\<lparr>backend := b,
                     calls := CallCommitTxn uniq_req txn_id status # calls st1,
                     txn_ids := (txn_ids st1)(uniq_req := None)\<rparr>))
           else (reply wstatus, st1)))"

definition HandleStore ::
  "('b, 'mh, 'h) Port \<Rightarrow> 'mh Request \<Rightarrow> 'mh Frame \<Rightarrow> ('b, 'h) CachePlugin
     \<Rightarrow> 'mh Reply \<times> ('b, 'h) CachePlugin" where
  "HandleStore W msg_req frame st =
     (case ParseMsgHash W (object_id msg_req) of
        None \<Rightarrow> (MsgStoreReply (req_id msg_req) (part_nr msg_req) STATUS_MALFORMED, st)
      | Some oid \<Rightarrow>
          if att_size frame > max_object_size st \<or>
             (att_size frame < max_object_size st \<and> \<not> last_part msg_req)
          then (MsgStoreReply (req_id msg_req) (part_nr msg_req) STATUS_MALFORMED, st)
          else
            (case HandleStore_txn W oid msg_req st of
               Inl early \<Rightarrow> early
             | Inr (txn_id, st1) \<Rightarrow> HandleStore_write W msg_req frame txn_id st1))"

text \<open>The record that \<open>HandleList\<close> adds to the reply for an item.\<close>

definition list_record_of :: "('b, 'mh, 'h) Port \<Rightarrow> 'h ObjectInfo \<Rightarrow> 'mh MsgListRecord" where
  "list_record_of W item =
     \<lparr>rec_hash = FillMsgHash W (info_id item),
      rec_pinned = info_pinned item,
      rec_description = info_description item\<rparr>"

text \<open>
  The loop of \<open>HandleList\<close> over \<open>ListingNext\<close>. \<open>total_size\<close> is an
  \<open>unsigned\<close>, so the sum wraps at 32 bits. The loop ends when the backend
  returns a status other than \<open>STATUS_OK\<close> or when the size estimate exceeds
  \<open>kListingSize\<close>; with a backend that returns \<open>STATUS_OK\<close> for ever it need
  not end, and then the value is \<open>None\<close>.
\<close>

partial_function (option) ListingNext_loop ::
  "('b, 'mh, 'h) Port \<Rightarrow> uint64 \<Rightarrow> uint32 \<Rightarrow> 'mh MsgListRecord list \<Rightarrow> ('b, 'h) CachePlugin
     \<Rightarrow> (EnumStatus \<times> 'mh MsgListRecord list \<times> ('b, 'h) CachePlugin) option" where
  "ListingNext_loop W lid total_size records st =
     (case ListingNext W lid (backend st) of (status, item, b) \<Rightarrow>
        let st1 = st\<lparr>backend := b, calls := CallListingNext lid status # calls st\<rparr> in
        if status = STATUS_OK then
          let records1 = records @ [list_record_of W item];
              total_size1 = total_size +
                of_nat (sizeof_ObjectInfo W + length (info_description item))
          in if total_size1 > kListingSize W then Some (status, records1, st1)
             else ListingNext_loop W lid total_size1 records1 st1
        else Some (status, records, st1))"

text \<open>The part of \<open>HandleList\<close> from \<open>assert(listing_id != 0)\<close> on.\<close>

definition HandleList_page ::
  "('b, 'mh, 'h) Port \<Rightarrow> 'mh Request \<Rightarrow> uint64 \<Rightarrow> ('b, 'h) CachePlugin
     \<Rightarrow> ('mh Reply \<times> ('b, 'h) CachePlugin) Outcome" where
  "HandleList_page W msg_req lid st =
     (if lid = 0 then AssertionFailed
      else
        case ListingNext_loop W lid 0 [] st of
          None \<Rightarrow> Diverges
        | Some (status, records, st1) \<Rightarrow>
            if status = STATUS_OUTOFBOUNDS then
              (case ListingEnd W lid (backend st1) of (status_end, b) \<Rightarrow>
                 Returns (MsgListReply (req_id msg_req) lid True records STATUS_OK,
                          st1\<lparr>backend := b, calls := CallListingEnd lid status_end # calls st1\<rparr>))
            else Returns (MsgListReply (req_id msg_req) lid False records status, st1))"

definition HandleList ::
  "('b, 'mh, 'h) Port \<Rightarrow> 'mh Request \<Rightarrow> ('b, 'h) CachePlugin
     \<Rightarrow> ('mh Reply \<times> ('b, 'h) CachePlugin) Outcome" where
  "HandleList W msg_req st =
     (if listing_id msg_req = 0 then
        (case NextLstId st of (lid, st1) \<Rightarrow>
           case ListingBegin W lid (list_object_type msg_req) (backend st1) of (status, b) \<Rightarrow>
             let st2 = st1\<lparr>backend := b,
                          calls := CallListingBegin lid (list_object_type msg_req) status # calls st1\<rparr>
             in if status \<noteq> STATUS_OK
                then Returns (MsgListReply (req_id msg_req) (listing_id msg_req) True [] status, st2)
                else HandleList_page W msg_req lid st2)
      else HandleList_page W msg_req (listing_id msg_req) st)"

subsection \<open>Dispatcher\<close>

text \<open>
  \<open>HandleRequest\<close>. The frame that \<open>RecvFrame\<close> delivers is an argument,
  \<open>None\<close> when \<open>RecvFrame\<close> fails. The result is the return value, the frame
  sent on the connection, if any, and the state.
\<close>

definition sent ::
  "'mh Reply \<times> ('b, 'h) CachePlugin \<Rightarrow> (bool \<times> 'mh Reply option \<times> ('b, 'h) CachePlugin) Outcome" where
  "sent r = Returns (True, Some (fst r), snd r)"

definition HandleRequest ::
  "('b, 'mh, 'h) Port \<Rightarrow> 'mh Frame option \<Rightarrow> ('b, 'h) CachePlugin
     \<Rightarrow> (bool \<times> 'mh Reply option \<times> ('b, 'h) CachePlugin) Outcome" where
  "HandleRequest W frame_recv st =
     (case frame_recv of
        None \<Rightarrow> Returns (False, None, st)
      | Some frame \<Rightarrow>
          (case msg_typed frame of
             MsgHandshake \<Rightarrow> sent (HandleHandshake W st)
           | MsgQuit \<Rightarrow> Returns (False, None, st)
           | MsgRefcountReq _ _ _ \<Rightarrow> sent (HandleRefcount W (msg_typed frame) st)
           | MsgObjectInfoReq _ _ \<Rightarrow> sent (HandleObjectInfo W (msg_typed frame) st)
           | MsgReadReq _ _ _ _ \<Rightarrow> sent (HandleRead W (msg_typed frame) st)
           | MsgStoreReq _ _ _ _ _ _ _ _ \<Rightarrow> sent (HandleStore W (msg_typed frame) frame st)
           | MsgStoreAbortReq _ _ \<Rightarrow> sent (HandleStoreAbort W (msg_typed frame) st)
           | MsgInfoReq _ \<Rightarrow> sent (HandleInfo W (msg_typed frame) st)
           | MsgShrinkReq _ _ \<Rightarrow> sent (HandleShrink W (msg_typed frame) st)
           | MsgListReq _ _ _ \<Rightarrow>
               (case HandleList W (msg_typed frame) st of
                  Returns r \<Rightarrow> sent r
                | AssertionFailed \<Rightarrow> AssertionFailed
                | UndefinedBehaviour \<Rightarrow> UndefinedBehaviour
                | Diverges \<Rightarrow> Diverges)
           | MsgOther _ \<Rightarrow> Returns (False, None, st)))"


subsection \<open>I/O supervisor: the loop over the readable connections\<close>

record pollfd =
  fd :: int
  events :: int
  revents :: int

text \<open>
  The state of \<open>MainProcessRequests\<close> in its loop "New request": the plugin,
  the vector \<open>watch_fds\<close>, and the descriptors passed to \<open>close\<close> so far (most
  recent first).
\<close>

record ('b, 'h) Supervisor =
  cache_plugin :: "('b, 'h) CachePlugin"
  watch_fds :: "pollfd list"
  closed :: "int list"

text \<open>\<open>watch_fds.erase(watch_fds.begin() + i)\<close>.\<close>

definition erase :: "nat \<Rightarrow> 'a list \<Rightarrow> 'a list" where
  "erase i xs = take i xs @ drop (Suc i) xs"

text \<open>
  The loop \<open>for (unsigned i = 2; i < watch_fds.size(); ++i)\<close>, from index
  \<open>i\<close> on. \<open>recv\<close> gives, for a descriptor, the frame that \<open>RecvFrame\<close>
  delivers on it. After \<open>erase\<close>, the expression \<open>watch_fds[i].fd\<close> reads the
  element that has moved to index \<open>i\<close>; when the erased element was the last
  one, it reads beyond the end of the vector.
\<close>

function New_request ::
  "('b, 'mh, 'h) Port \<Rightarrow> (int \<Rightarrow> 'mh Frame option) \<Rightarrow> nat \<Rightarrow> ('b, 'h) Supervisor
     \<Rightarrow> ('b, 'h) Supervisor Outcome" where
  "New_request W recv i s =
     (if i < length (watch_fds s) then
        if revents (watch_fds s ! i) \<noteq> 0 then
          (case HandleRequest W (recv (fd (watch_fds s ! i))) (cache_plugin s) of
             Returns (proceed, reply, p) \<Rightarrow>
               if \<not> proceed then
                 (let closed1 = fd (watch_fds s ! i) # closed s;
                      watch_fds1 = erase i (watch_fds s)
                  in if i < length watch_fds1 then
                       New_request W recv (Suc i)
                         \<lparr>cache_plugin = p\<lparr>connections := connections p - {fd (watch_fds1 ! i)}\<rparr>,
                          watch_fds = watch_fds1,
                          closed = closed1\<rparr>
                     else UndefinedBehaviour)
               else New_request W recv (Suc i) (s\<lparr>cache_plugin := p\<rparr>)
           | AssertionFailed \<Rightarrow> AssertionFailed
           | UndefinedBehaviour \<Rightarrow> UndefinedBehaviour
           | Diverges \<Rightarrow> Diverges)
        else New_request W recv (Suc i) s
      else Returns s)"
  by pat_completeness auto
termination
  by (relation "measure (\<lambda>(W, recv, i, s). length (watch_fds s) - i)")
     (auto simp: erase_def)

text \<open>
  The branch "New connection" when \<open>accept\<close> succeeds with descriptor
  \<open>fd_con\<close>. The code sets the members \<open>fd\<close> and \<open>events\<close> of \<open>watch_con\<close>
  and leaves \<open>revents\<close> uninitialised; the loop "New request" of the same pass
  reads it. Its value is indeterminate, and an argument here.
\<close>

definition New_connection ::
  "int \<Rightarrow> int \<Rightarrow> ('b, 'h) Supervisor \<Rightarrow> ('b, 'h) Supervisor" where
  "New_connection fd_con revents_uninitialised s =
     s\<lparr>watch_fds := watch_fds s @ [\<lparr>fd = fd_con, events = 3, revents = revents_uninitialised\<rparr>],
       cache_plugin := (cache_plugin s)\<lparr>connections := insert fd_con (connections (cache_plugin s))\<rparr>\<rparr>"

subsection \<open>Notions the properties are stated with\<close>

text \<open>The calls logged between a state and a later one, most recent first.\<close>

definition new_calls :: "('b, 'h) CachePlugin \<Rightarrow> ('b, 'h) CachePlugin \<Rightarrow> 'h BackendCall list" where
  "new_calls st st1 = take (length (calls st1) - length (calls st)) (calls st1)"

fun is_CommitTxn :: "'h BackendCall \<Rightarrow> bool" where
  "is_CommitTxn (CallCommitTxn k t s) = True"
| "is_CommitTxn _ = False"

fun is_StartTxn :: "'h BackendCall \<Rightarrow> bool" where
  "is_StartTxn (CallStartTxn k t s) = True"
| "is_StartTxn _ = False"

fun is_ListingEnd :: "'h BackendCall \<Rightarrow> bool" where
  "is_ListingEnd (CallListingEnd l s) = True"
| "is_ListingEnd _ = False"

text \<open>
  The requests that fail the malformed gate: a read larger than the maximal
  object size, a store whose attachment is larger than the maximal object size
  or smaller without being the last part, a request whose object hash does not
  parse, and a first store part on a key that is registered.
\<close>

definition malformed_gate ::
  "('b, 'mh, 'h) Port \<Rightarrow> ('b, 'h) CachePlugin \<Rightarrow> 'mh Frame \<Rightarrow> bool" where
  "malformed_gate W st frame =
     (case msg_typed frame of
        MsgReadReq rid oid off sz \<Rightarrow>
          sz > max_object_size st \<or> ParseMsgHash W oid = None
      | MsgStoreReq sid rid oid pn lp es ot ds \<Rightarrow>
          att_size frame > max_object_size st \<or>
          (att_size frame < max_object_size st \<and> \<not> lp) \<or>
          ParseMsgHash W oid = None \<or>
          (pn = 1 \<and> txn_ids st (sid, rid) \<noteq> None)
      | MsgRefcountReq rid oid c \<Rightarrow> ParseMsgHash W oid = None
      | MsgObjectInfoReq rid oid \<Rightarrow> ParseMsgHash W oid = None
      | _ \<Rightarrow> False)"







text \<open>
  \<open>HandleRequests\<close> with the frames sent in reply, one entry per received
  frame, in the order of the requests.
\<close>

fun HandleRequests_sent ::
  "('b, 'mh, 'h) Port \<Rightarrow> 'mh Frame option list \<Rightarrow> ('b, 'h) CachePlugin
     \<Rightarrow> ('mh Reply option list \<times> ('b, 'h) CachePlugin) Outcome" where
  "HandleRequests_sent W [] st = Returns ([], st)"
| "HandleRequests_sent W (f # fs) st =
     (case HandleRequest W f st of
        Returns (proceed, reply, st1) \<Rightarrow>
          (case HandleRequests_sent W fs st1 of
             Returns (replies, st2) \<Rightarrow> Returns (reply # replies, st2)
           | AssertionFailed \<Rightarrow> AssertionFailed
           | UndefinedBehaviour \<Rightarrow> UndefinedBehaviour
           | Diverges \<Rightarrow> Diverges)
      | AssertionFailed \<Rightarrow> AssertionFailed
      | UndefinedBehaviour \<Rightarrow> UndefinedBehaviour
      | Diverges \<Rightarrow> Diverges)"

text \<open>
  The ids handed out during a run, in the order in which they were handed out:
  the session ids are those of the handshake acknowledgements sent; a
  transaction id is passed to \<open>StartTxn\<close> and a listing id to \<open>ListingBegin\<close>
  as soon as it is taken, so these are read from the log (whose most recent
  call is first).
\<close>

fun session_ids :: "'mh Reply option list \<Rightarrow> uint64 list" where
  "session_ids [] = []"
| "session_ids (Some (MsgHandshakeAck s nm v m sid c) # rs) = sid # session_ids rs"
| "session_ids (r # rs) = session_ids rs"

fun transaction_ids :: "'h BackendCall list \<Rightarrow> uint64 list" where
  "transaction_ids [] = []"
| "transaction_ids (CallStartTxn k t s # cs) = transaction_ids cs @ [t]"
| "transaction_ids (c # cs) = transaction_ids cs"

fun listing_ids :: "'h BackendCall list \<Rightarrow> uint64 list" where
  "listing_ids [] = []"
| "listing_ids (CallListingBegin l t s # cs) = listing_ids cs @ [l]"
| "listing_ids (c # cs) = listing_ids cs"


subsection \<open>A sample backend\<close>

text \<open>
  A backend for the examples. Its state is the script of the answers that
  \<open>ListingNext\<close> gives, one per call, and \<open>STATUS_OUTOFBOUNDS\<close> when the
  script is used up; every other operation answers \<open>STATUS_OK\<close>. The wire
  form of a hash is a number, and the number 0 does not parse.
\<close>

type_synonym script = "(EnumStatus \<times> nat ObjectInfo) list"

definition sample_item :: "nat \<Rightarrow> nat ObjectInfo" where
  "sample_item n =
     \<lparr>info_id = n, info_size = kSizeUnknown, info_object_type = 0,
      info_pinned = False, info_description = []\<rparr>"

definition sample_Port :: "(script, nat, nat) Port" where
  "sample_Port =
     \<lparr>ParseMsgHash = (\<lambda>n. if n = 0 then None else Some n),
      FillMsgHash = (\<lambda>n. n),
      kPbProtocolVersion = 1,
      kListingSize = 100,
      sizeof_ObjectInfo = 64,
      default_ObjectInfo = sample_item 0,
      ChangeRefcount = (\<lambda>h c b. (STATUS_OK, b)),
      GetObjectInfo = (\<lambda>h b. (STATUS_OK, sample_item h, b)),
      Pread = (\<lambda>h off n b. (STATUS_OK, 0, [], b)),
      StartTxn = (\<lambda>h t info b. (STATUS_OK, b)),
      WriteTxn = (\<lambda>t buf n b. (STATUS_OK, b)),
      CommitTxn = (\<lambda>t b. (STATUS_OK, b)),
      AbortTxn = (\<lambda>t b. (STATUS_OK, b)),
      GetInfo = (\<lambda>b. (STATUS_OK,
                  \<lparr>size_bytes = 0, used_bytes = 0, pinned_bytes = 0, no_shrink = False\<rparr>, b)),
      Shrink = (\<lambda>n b. (STATUS_OK, 0, b)),
      ListingBegin = (\<lambda>l t b. (STATUS_OK, b)),
      ListingNext = (\<lambda>l b. case b of
                        [] \<Rightarrow> (STATUS_OUTOFBOUNDS, sample_item 0, [])
                      | (s, item) # r \<Rightarrow> (s, item, r)),
      ListingEnd = (\<lambda>l b. (STATUS_OK, b))\<rparr>"

text \<open>
  The same backend with a \<open>WriteTxn\<close>, a \<open>CommitTxn\<close>, or a \<open>ListingEnd\<close>,
  that fails.
\<close>

definition sample_Port_write_fails :: "(script, nat, nat) Port" where
  "sample_Port_write_fails = sample_Port\<lparr>WriteTxn := (\<lambda>t buf n b. (STATUS_IOERR, b))\<rparr>"

definition sample_Port_commit_fails :: "(script, nat, nat) Port" where
  "sample_Port_commit_fails = sample_Port\<lparr>CommitTxn := (\<lambda>t b. (STATUS_IOERR, b))\<rparr>"

definition sample_Port_end_fails :: "(script, nat, nat) Port" where
  "sample_Port_end_fails = sample_Port\<lparr>ListingEnd := (\<lambda>l b. (STATUS_IOERR, b))\<rparr>"

text \<open>
  A plugin that advertises no capability, with a maximal object size of 4
  bytes.
\<close>

definition sample_plugin :: "script \<Rightarrow> (script, nat) CachePlugin" where
  "sample_plugin b = CachePlugin_ctor 0 4 ''sample'' b"

definition sample_store :: "uint64 \<Rightarrow> bool \<Rightarrow> nat Frame" where
  "sample_store nr is_last =
     \<lparr>msg_typed = MsgStoreReq 1 7 5 nr is_last None None None,
      att_size = 4, attachment = [1, 2, 3, 4]\<rparr>"

text \<open>A frame without attachment.\<close>

definition sample_frame :: "nat Request \<Rightarrow> nat Frame" where
  "sample_frame msg = \<lparr>msg_typed = msg, att_size = 0, attachment = []\<rparr>"


subsection \<open>The log of backend calls and the registry\<close>



subsection \<open>Runs of the sample backend\<close>

text \<open>
  Two runs of \<open>HandleStore\<close> on the sample plugin: the first part of a store
  whose \<open>WriteTxn\<close> fails, and a store in one part whose \<open>CommitTxn\<close> fails.
\<close>

definition sample_failed_write :: "nat Reply \<times> (script, nat) CachePlugin" where
  "sample_failed_write =
     HandleStore sample_Port_write_fails (msg_typed (sample_store 1 False)) (sample_store 1 False)
       (sample_plugin [])"

definition sample_failed_commit :: "nat Reply \<times> (script, nat) CachePlugin" where
  "sample_failed_commit =
     HandleStore sample_Port_commit_fails (msg_typed (sample_store 1 True)) (sample_store 1 True)
       (sample_plugin [])"







text \<open>
  A supervisor with two connections, descriptors 5 and 6, after \<open>poll\<close> has
  reported descriptor 5 readable; descriptor 3 is the control pipe and 4 the
  socket. Every connection delivers a \<open>MsgQuit\<close>. Then the supervisor after the
  loop over the connections.
\<close>

definition sample_quit :: "int \<Rightarrow> nat Frame option" where
  "sample_quit fd_con = Some \<lparr>msg_typed = MsgQuit, att_size = 0, attachment = []\<rparr>"

definition sample_supervisor :: "(script, nat) Supervisor" where
  "sample_supervisor =
     \<lparr>cache_plugin = (sample_plugin [])\<lparr>connections := {5, 6}\<rparr>,
      watch_fds =
        [\<lparr>fd = 3, events = 3, revents = 0\<rparr>, \<lparr>fd = 4, events = 3, revents = 0\<rparr>,
         \<lparr>fd = 5, events = 3, revents = 1\<rparr>, \<lparr>fd = 6, events = 3, revents = 0\<rparr>],
      closed = []\<rparr>"

definition sample_supervisor_after :: "(script, nat) Supervisor" where
  "sample_supervisor_after =
     \<lparr>cache_plugin = (sample_plugin [])\<lparr>connections := {5}\<rparr>,
      watch_fds =
        [\<lparr>fd = 3, events = 3, revents = 0\<rparr>, \<lparr>fd = 4, events = 3, revents = 0\<rparr>,
         \<lparr>fd = 6, events = 3, revents = 0\<rparr>],
      closed = [5]\<rparr>"


text \<open>
  A run of six requests on the sample plugin: two handshakes, two stores in one
  part on the same key, and two listings that begin; and the state after it.
\<close>

definition sample_session :: "nat Frame option list" where
  "sample_session =
     [Some (sample_frame MsgHandshake), Some (sample_frame MsgHandshake),
      Some (sample_store 1 True), Some (sample_store 1 True),
      Some (sample_frame (MsgListReq 9 0 0)), Some (sample_frame (MsgListReq 9 0 0))]"

definition sample_session_end :: "(script, nat) CachePlugin" where
  "sample_session_end =
     (sample_plugin [])
       \<lparr>next_session_id := 2, next_txn_id := 2, next_lst_id := 3,
        calls :=
          [CallListingEnd 2 STATUS_OK, CallListingNext 2 STATUS_OUTOFBOUNDS,
           CallListingBegin 2 0 STATUS_OK,
           CallListingEnd 1 STATUS_OK, CallListingNext 1 STATUS_OUTOFBOUNDS,
           CallListingBegin 1 0 STATUS_OK,
           CallCommitTxn (1, 7) 1 STATUS_OK, CallWriteTxn (1, 7) 1 STATUS_OK,
           CallStartTxn (1, 7) 1 STATUS_OK,
           CallCommitTxn (1, 7) 0 STATUS_OK, CallWriteTxn (1, 7) 0 STATUS_OK,
           CallStartTxn (1, 7) 0 STATUS_OK]\<rparr>"

section \<open>Polymorphic construction (test/unittests/t_polymorphic_construction.cc)\<close>

text \<open>
  The types and the three mock classes of the test. The message of the third
  class has the letter a with grave accent, which the source file holds as the
  two bytes C3 A0 of its UTF-8 encoding.
\<close>

record DecisionType =
  decision_type :: int
  fail :: bool

record IntrospectionType =
  message :: string
  introspection_type :: int

datatype AbstractPolyCtorMock =
    FirstPolyCtorMock DecisionType
  | SecondPolyCtorMock DecisionType
  | ThirdPolyCtorMock DecisionType

text \<open>
  Modelled from the spec: the template \<open>PolymorphicConstruction\<close> (util.h) is
  not among the sources; only its test is. The specification describes a
  registry of factories selectable by an opaque decision value, populated by
  registration, with an introspection view of the registered kinds, where an
  unknown value yields no instance. A registered factory is the \<open>WillHandle\<close>,
  the constructor and the \<open>GetInfo\<close> of its class; \<open>Construct\<close> gives an
  instance of the first registered factory that accepts the value. The
  registration routine runs when \<open>Construct\<close> or \<open>Introspect\<close> finds the
  registry empty, which is what the counts in the tests show. The mock's
  \<open>Initialize\<close>, which returns the negation of \<open>fail\<close>, is a hook of which the
  specification says nothing and which no test makes fail; \<open>Construct\<close> as
  modelled here does not consult it.
\<close>

record Plugin =
  WillHandle :: "DecisionType \<Rightarrow> bool"
  plugin_Construct :: "DecisionType \<Rightarrow> AbstractPolyCtorMock"
  plugin_GetInfo :: IntrospectionType

record PolymorphicConstruction =
  registered_plugins :: "Plugin list"
  register_plugin_calls :: nat

definition RegisterPlugin :: "Plugin \<Rightarrow> PolymorphicConstruction \<Rightarrow> PolymorphicConstruction" where
  "RegisterPlugin p s = s\<lparr>registered_plugins := registered_plugins s @ [p]\<rparr>"

definition First_plugin :: Plugin where
  "First_plugin =
     \<lparr>WillHandle = (\<lambda>param. decision_type param = 0),
      plugin_Construct = FirstPolyCtorMock,
      plugin_GetInfo = \<lparr>message = ''Hello from First.'', introspection_type = 0\<rparr>\<rparr>"

definition Second_plugin :: Plugin where
  "Second_plugin =
     \<lparr>WillHandle = (\<lambda>param. decision_type param = 1),
      plugin_Construct = SecondPolyCtorMock,
      plugin_GetInfo = \<lparr>message = ''Second calling!'', introspection_type = 1\<rparr>\<rparr>"

definition Third_plugin :: Plugin where
  "Third_plugin =
     \<lparr>WillHandle = (\<lambda>param. decision_type param = 2),
      plugin_Construct = ThirdPolyCtorMock,
      plugin_GetInfo =
        \<lparr>message = ''Third '' @ [CHR 0xC3, CHR 0xA0] @ '' l'appareil.'',
         introspection_type = 2\<rparr>\<rparr>"

text \<open>\<open>AbstractPolyCtorMock::RegisterPlugins\<close>, as the test defines it.\<close>

definition RegisterPlugins :: "PolymorphicConstruction \<Rightarrow> PolymorphicConstruction" where
  "RegisterPlugins s =
     RegisterPlugin Third_plugin
       (RegisterPlugin Second_plugin
          (RegisterPlugin First_plugin
             (s\<lparr>register_plugin_calls := register_plugin_calls s + 1\<rparr>)))"

definition LazilyRegisterPlugins :: "PolymorphicConstruction \<Rightarrow> PolymorphicConstruction" where
  "LazilyRegisterPlugins s = (if List.null (registered_plugins s) then RegisterPlugins s else s)"

definition Construct ::
  "DecisionType \<Rightarrow> PolymorphicConstruction \<Rightarrow> AbstractPolyCtorMock option \<times> PolymorphicConstruction" where
  "Construct param s =
     (let s1 = LazilyRegisterPlugins s in
      (case find (\<lambda>p. WillHandle p param) (registered_plugins s1) of
         None \<Rightarrow> None
       | Some p \<Rightarrow> Some (plugin_Construct p param),
       s1))"

definition Introspect ::
  "PolymorphicConstruction \<Rightarrow> IntrospectionType list \<times> PolymorphicConstruction" where
  "Introspect s =
     (let s1 = LazilyRegisterPlugins s in (map plugin_GetInfo (registered_plugins s1), s1))"

text \<open>The state of a process that has made no call yet, and a sequence of calls.\<close>

definition no_plugins :: PolymorphicConstruction where
  "no_plugins = \<lparr>registered_plugins = [], register_plugin_calls = 0\<rparr>"

datatype PolyCall = CallConstruct DecisionType | CallIntrospect

fun poly_calls :: "PolyCall list \<Rightarrow> PolymorphicConstruction \<Rightarrow> PolymorphicConstruction" where
  "poly_calls [] s = s"
| "poly_calls (CallConstruct param # cs) s = poly_calls cs (snd (Construct param s))"
| "poly_calls (CallIntrospect # cs) s = poly_calls cs (snd (Introspect s))"

text \<open>The registered factories that accept a decision value.\<close>

definition accepting :: "DecisionType \<Rightarrow> PolymorphicConstruction \<Rightarrow> Plugin list" where
  "accepting param s = filter (\<lambda>p. WillHandle p param) (registered_plugins s)"

text \<open>
  The two states of the registry: no call made yet, or the three mock classes
  registered by one run of the registration routine.
\<close>

definition poly_inv :: "PolymorphicConstruction \<Rightarrow> bool" where
  "poly_inv s =
     (s = no_plugins \<or>
      s = \<lparr>registered_plugins = [First_plugin, Second_plugin, Third_plugin],
           register_plugin_calls = 1\<rparr>)"

section \<open>Properties\<close>

lemmas sample_defs = sample_Port_def sample_Port_write_fails_def sample_Port_commit_fails_def
  sample_Port_end_fails_def sample_frame_def
  sample_plugin_def sample_store_def sample_item_def CachePlugin_ctor_def

lemmas store_defs = HandleStore_def HandleStore_txn_def HandleStore_write_def StoreReq_info_def
  NextTxnId_def Let_def

lemmas list_defs = HandleList_def HandleList_page_def ListingNext_loop.simps NextLstId_def
  list_record_of_def Let_def

lemmas request_defs = HandleRequest_def sent_def

subsection \<open>The malformed gate\<close>

text \<open>
  Claim C1. A request that fails the malformed gate (a read larger than the
  maximal object size, a store whose attachment is larger than the maximal
  object size or smaller without being the last part, a request whose hash does
  not parse, a first store part on a registered key) is answered with
  \<open>STATUS_MALFORMED\<close>, and the state after the request is the state before
  it: no backend call is made and the transaction registry is not changed.
\<close>

theorem malformed_gate_reply:
  assumes "malformed_gate W st frame"
  shows "\<exists>reply. HandleRequest W (Some frame) st = Returns (True, Some reply, st) \<and>
           reply_status reply = STATUS_MALFORMED"
  using assms
  by (cases "msg_typed frame")
     (auto simp: malformed_gate_def HandleRequest_def sent_def HandleRead_def HandleStore_def
        HandleStore_txn_def HandleRefcount_def HandleObjectInfo_def Let_def split: option.splits)

theorem malformed_gate_reply_witness:
  "malformed_gate sample_Port (sample_plugin [])
     \<lparr>msg_typed = MsgReadReq 8 5 0 5, att_size = 0, attachment = []\<rparr> \<and>
   HandleRequest sample_Port
     (Some \<lparr>msg_typed = MsgReadReq 8 5 0 5, att_size = 0, attachment = []\<rparr>) (sample_plugin []) =
     Returns (True, Some (MsgReadReply 8 STATUS_MALFORMED None), sample_plugin [])"
proof -
  have h: "malformed_gate sample_Port (sample_plugin [])
     \<lparr>msg_typed = MsgReadReq 8 5 0 5, att_size = 0, attachment = []\<rparr>"
    by (simp add: malformed_gate_def sample_defs)
  from malformed_gate_reply [OF h] obtain reply where
    "HandleRequest sample_Port
       (Some \<lparr>msg_typed = MsgReadReq 8 5 0 5, att_size = 0, attachment = []\<rparr>) (sample_plugin []) =
     Returns (True, Some reply, sample_plugin [])" by blast
  moreover have "HandleRequest sample_Port
       (Some \<lparr>msg_typed = MsgReadReq 8 5 0 5, att_size = 0, attachment = []\<rparr>) (sample_plugin []) =
     Returns (True, Some (MsgReadReply 8 STATUS_MALFORMED None), sample_plugin [])"
    by (simp add: HandleRequest_def sent_def HandleRead_def sample_defs)
  ultimately show ?thesis using h by simp
qed

subsection \<open>Store transactions\<close>

lemma new_calls_append: "calls st1 = cs @ calls st \<Longrightarrow> new_calls st st1 = cs"
  by (simp add: new_calls_def)

lemma HandleStore_txn_Inr:
  assumes "HandleStore_txn W oid msg_req st = Inr (t, st1)"
  shows "txn_ids st1 (session_id msg_req, req_id msg_req) = Some t"
    and "txn_ids st1 =
           (if part_nr msg_req = 1
            then (txn_ids st)((session_id msg_req, req_id msg_req) := Some t)
            else txn_ids st)"
    and "part_nr msg_req = 1 \<Longrightarrow> txn_ids st (session_id msg_req, req_id msg_req) = None"
    and "calls st1 =
           (if part_nr msg_req = 1
            then [CallStartTxn (session_id msg_req, req_id msg_req) t STATUS_OK]
            else []) @ calls st"
  using assms
  by (auto simp: HandleStore_txn_def NextTxnId_def Let_def
           split: if_splits option.splits prod.splits)

lemma HandleStore_txn_Inl:
  assumes "HandleStore_txn W oid msg_req st = Inl (reply, st1)"
  shows "txn_ids st1 = txn_ids st"
    and "\<exists>cs. calls st1 = cs @ calls st \<and> list_all is_StartTxn cs"
  using assms
  by (auto simp: HandleStore_txn_def NextTxnId_def Let_def
           split: if_splits option.splits prod.splits)

text \<open>
  The three ways in which the last part of \<open>HandleStore\<close> ends.
\<close>

lemma HandleStore_write_cases:
  assumes "HandleStore_write W msg_req frame t st = (reply, st1)"
  obtains
    (write_fails) s where "0 < att_size frame" "s \<noteq> STATUS_OK"
      "reply = MsgStoreReply (req_id msg_req) (part_nr msg_req) s"
      "calls st1 = [CallWriteTxn (session_id msg_req, req_id msg_req) t s] @ calls st"
      "txn_ids st1 = txn_ids st"
  | (commit) s where "last_part msg_req"
      "reply = MsgStoreReply (req_id msg_req) (part_nr msg_req) s"
      "calls st1 = CallCommitTxn (session_id msg_req, req_id msg_req) t s #
         (if 0 < att_size frame
          then [CallWriteTxn (session_id msg_req, req_id msg_req) t STATUS_OK] else []) @ calls st"
      "txn_ids st1 = (txn_ids st)((session_id msg_req, req_id msg_req) := None)"
  | (more) "\<not> last_part msg_req"
      "reply = MsgStoreReply (req_id msg_req) (part_nr msg_req) STATUS_OK"
      "calls st1 =
         (if 0 < att_size frame
          then [CallWriteTxn (session_id msg_req, req_id msg_req) t STATUS_OK] else []) @ calls st"
      "txn_ids st1 = txn_ids st"
  using assms
  by (auto simp: HandleStore_write_def Let_def split: if_splits prod.splits)

lemma HandleStore_cases:
  assumes "HandleStore W msg_req frame st = (reply, st1)"
  obtains
    (gate) "st1 = st"
      "reply = MsgStoreReply (req_id msg_req) (part_nr msg_req) STATUS_MALFORMED"
  | (early) oid where "HandleStore_txn W oid msg_req st = Inl (reply, st1)"
  | (resolved) oid t st2 where "HandleStore_txn W oid msg_req st = Inr (t, st2)"
      "HandleStore_write W msg_req frame t st2 = (reply, st1)"
proof (cases "ParseMsgHash W (object_id msg_req)")
  case None
  with assms gate show ?thesis by (simp add: HandleStore_def)
next
  case (Some oid)
  show ?thesis
  proof (cases "att_size frame > max_object_size st \<or>
             (att_size frame < max_object_size st \<and> \<not> last_part msg_req)")
    case True
    with assms Some gate show ?thesis by (simp add: HandleStore_def)
  next
    case False
    show ?thesis
    proof (cases "HandleStore_txn W oid msg_req st")
      case (Inl a)
      with assms Some False have "HandleStore_txn W oid msg_req st = Inl (reply, st1)"
        by (simp add: HandleStore_def)
      then show ?thesis by (rule early)
    next
      case (Inr b)
      obtain t st2 where b: "b = (t, st2)" by (cases b)
      from assms Some False Inr b
      have "HandleStore_write W msg_req frame t st2 = (reply, st1)"
        by (simp add: HandleStore_def)
      with Inr b show ?thesis by (auto intro: resolved)
    qed
  qed
qed

lemma HandleStore_resolved_calls:
  assumes "HandleStore_txn W oid msg_req st = Inr (t2, st2)"
    and "calls st1 = cs @ calls st2"
  shows "new_calls st st1 =
           cs @ (if part_nr msg_req = 1
                 then [CallStartTxn (session_id msg_req, req_id msg_req) t2 STATUS_OK] else [])"
  using HandleStore_txn_Inr(4) [OF assms(1)] assms(2)
  by (simp add: new_calls_def)

lemma sample_failed_write_calls:
  "new_calls (sample_plugin []) (snd sample_failed_write) =
     [CallWriteTxn (1, 7) 0 STATUS_IOERR, CallStartTxn (1, 7) 0 STATUS_OK]"
  by (simp add: sample_failed_write_def sample_defs store_defs new_calls_def)

lemma sample_failed_commit_calls:
  "new_calls (sample_plugin []) (snd sample_failed_commit) =
     [CallCommitTxn (1, 7) 0 STATUS_IOERR, CallWriteTxn (1, 7) 0 STATUS_OK,
      CallStartTxn (1, 7) 0 STATUS_OK]"
  by (simp add: sample_failed_commit_def sample_defs store_defs new_calls_def)

text \<open>
  Claim C5, as stated, at the first part of a store whose \<open>WriteTxn\<close> fails:
  the key has no registry entry before the request and is registered after it,
  so the entry does not stay as it was.
\<close>

theorem store_write_failure_changes_entry:
  "CallWriteTxn (1, 7) 0 STATUS_IOERR \<in> set (new_calls (sample_plugin []) (snd sample_failed_write)) \<and>
   0 < att_size (sample_store 1 False) \<and>
   txn_ids (sample_plugin []) (1, 7) = None \<and>
   txn_ids (snd sample_failed_write) (1, 7) = Some 0"
  by (simp add: sample_failed_write_calls)
     (simp add: sample_failed_write_def sample_defs store_defs)

text \<open>
  Claim C5, amended. When the \<open>WriteTxn\<close> call of a store request returns a
  status that is not \<open>STATUS_OK\<close>, the attachment is not empty, the reply
  carries that status, no \<open>CommitTxn\<close> is made, and the registry entry of the
  request's key is the one the request resolved: the registry is the one before
  the request when the part number is not 1, and the one before the request
  with the entry of the new transaction added when the part number is 1. The
  entry is not erased.
\<close>

theorem store_write_failure_keeps_entry:
  assumes "HandleStore W msg_req frame st = (reply, st1)"
    and "CallWriteTxn k t s \<in> set (new_calls st st1)"
    and "s \<noteq> STATUS_OK"
  shows "reply = MsgStoreReply (req_id msg_req) (part_nr msg_req) s \<and>
         0 < att_size frame \<and>
         \<not> list_ex is_CommitTxn (new_calls st st1) \<and>
         k = (session_id msg_req, req_id msg_req) \<and>
         txn_ids st1 k = Some t \<and>
         txn_ids st1 = (if part_nr msg_req = 1 then (txn_ids st)(k := Some t) else txn_ids st)"
  using assms(1)
proof (cases rule: HandleStore_cases)
  case gate
  with assms(2) show ?thesis by (simp add: new_calls_def)
next
  case (early oid)
  from HandleStore_txn_Inl(2) [OF early] obtain cs
    where "calls st1 = cs @ calls st" "list_all is_StartTxn cs" by blast
  then have "new_calls st st1 = cs" "\<forall>c \<in> set cs. is_StartTxn c"
    by (simp_all add: new_calls_def list_all_iff)
  with assms(2) show ?thesis by auto
next
  case (resolved oid t2 st2)
  note r = HandleStore_txn_Inr [OF resolved(1)]
  from resolved(2) show ?thesis
  proof (cases rule: HandleStore_write_cases)
    case (write_fails s2)
    have n: "new_calls st st1 =
        [CallWriteTxn (session_id msg_req, req_id msg_req) t2 s2] @
        (if part_nr msg_req = 1
         then [CallStartTxn (session_id msg_req, req_id msg_req) t2 STATUS_OK] else [])"
      by (rule HandleStore_resolved_calls [OF resolved(1) write_fails(4)])
    from assms(2) have e: "k = (session_id msg_req, req_id msg_req)" "t = t2" "s = s2"
      unfolding n by (simp_all split: if_splits)
    have c: "\<not> list_ex is_CommitTxn (new_calls st st1)"
      unfolding n by simp
    from write_fails(1,3,5) r(1,2) e c show ?thesis by simp
  next
    case (commit s2)
    have n: "new_calls st st1 =
        (CallCommitTxn (session_id msg_req, req_id msg_req) t2 s2 #
         (if 0 < att_size frame
          then [CallWriteTxn (session_id msg_req, req_id msg_req) t2 STATUS_OK] else [])) @
        (if part_nr msg_req = 1
         then [CallStartTxn (session_id msg_req, req_id msg_req) t2 STATUS_OK] else [])"
      by (rule HandleStore_resolved_calls [OF resolved(1)]) (simp add: commit(3))
    from assms(2,3) have False
      unfolding n by (simp split: if_splits)
    then show ?thesis ..
  next
    case more
    have n: "new_calls st st1 =
        (if 0 < att_size frame
          then [CallWriteTxn (session_id msg_req, req_id msg_req) t2 STATUS_OK] else []) @
        (if part_nr msg_req = 1
         then [CallStartTxn (session_id msg_req, req_id msg_req) t2 STATUS_OK] else [])"
      by (rule HandleStore_resolved_calls [OF resolved(1) more(3)])
    from assms(2,3) have False
      unfolding n by (simp split: if_splits)
    then show ?thesis ..
  qed
qed

theorem store_write_failure_keeps_entry_witness:
  "CallWriteTxn (1, 7) 0 STATUS_IOERR \<in> set (new_calls (sample_plugin []) (snd sample_failed_write)) \<and>
   STATUS_IOERR \<noteq> STATUS_OK \<and>
   fst sample_failed_write = MsgStoreReply 7 1 STATUS_IOERR \<and>
   \<not> list_ex is_CommitTxn (new_calls (sample_plugin []) (snd sample_failed_write)) \<and>
   txn_ids (snd sample_failed_write) (1, 7) = Some 0"
proof -
  have h1: "HandleStore sample_Port_write_fails (msg_typed (sample_store 1 False))
      (sample_store 1 False) (sample_plugin []) = (fst sample_failed_write, snd sample_failed_write)"
    by (simp add: sample_failed_write_def)
  have h2: "CallWriteTxn (1, 7) 0 STATUS_IOERR \<in>
      set (new_calls (sample_plugin []) (snd sample_failed_write))"
    by (simp add: sample_failed_write_calls)
  have h3: "STATUS_IOERR \<noteq> STATUS_OK" by simp
  from store_write_failure_keeps_entry [OF h1 h2 h3] h2 show ?thesis
    by (simp add: sample_store_def)
qed

lemma HandleStore_commit:
  assumes "HandleStore W msg_req frame st = (reply, st1)"
    and "CallCommitTxn k t s \<in> set (new_calls st st1)"
  shows "last_part msg_req \<and>
         k = (session_id msg_req, req_id msg_req) \<and>
         reply = MsgStoreReply (req_id msg_req) (part_nr msg_req) s \<and>
         txn_ids st1 k = None \<and>
         HandleStoreAbort W (MsgStoreAbortReq (session_id msg_req) (req_id msg_req)) st1 =
           (MsgStoreReply (req_id msg_req) 0 STATUS_MALFORMED, st1)"
  using assms(1)
proof (cases rule: HandleStore_cases)
  case gate
  with assms(2) show ?thesis by (simp add: new_calls_def)
next
  case (early oid)
  from HandleStore_txn_Inl(2) [OF early] obtain cs
    where "calls st1 = cs @ calls st" "list_all is_StartTxn cs" by blast
  then have "new_calls st st1 = cs" "\<forall>c \<in> set cs. is_StartTxn c"
    by (simp_all add: new_calls_def list_all_iff)
  with assms(2) show ?thesis by auto
next
  case (resolved oid t2 st2)
  from resolved(2) show ?thesis
  proof (cases rule: HandleStore_write_cases)
    case (write_fails s2)
    have n: "new_calls st st1 =
        [CallWriteTxn (session_id msg_req, req_id msg_req) t2 s2] @
        (if part_nr msg_req = 1
         then [CallStartTxn (session_id msg_req, req_id msg_req) t2 STATUS_OK] else [])"
      by (rule HandleStore_resolved_calls [OF resolved(1) write_fails(4)])
    from assms(2) have False
      unfolding n by (simp split: if_splits)
    then show ?thesis ..
  next
    case (commit s2)
    have n: "new_calls st st1 =
        (CallCommitTxn (session_id msg_req, req_id msg_req) t2 s2 #
         (if 0 < att_size frame
          then [CallWriteTxn (session_id msg_req, req_id msg_req) t2 STATUS_OK] else [])) @
        (if part_nr msg_req = 1
         then [CallStartTxn (session_id msg_req, req_id msg_req) t2 STATUS_OK] else [])"
      by (rule HandleStore_resolved_calls [OF resolved(1)]) (simp add: commit(3))
    from assms(2) have e: "k = (session_id msg_req, req_id msg_req)" "s = s2"
      unfolding n by (simp_all split: if_splits)
    have a: "txn_ids st1 (session_id msg_req, req_id msg_req) = None"
      by (simp add: commit(4))
    from a have "HandleStoreAbort W (MsgStoreAbortReq (session_id msg_req) (req_id msg_req)) st1 =
           (MsgStoreReply (req_id msg_req) 0 STATUS_MALFORMED, st1)"
      by (simp add: HandleStoreAbort_def)
    with commit(1,2) e a show ?thesis by simp
  next
    case more
    have n: "new_calls st st1 =
        (if 0 < att_size frame
          then [CallWriteTxn (session_id msg_req, req_id msg_req) t2 STATUS_OK] else []) @
        (if part_nr msg_req = 1
         then [CallStartTxn (session_id msg_req, req_id msg_req) t2 STATUS_OK] else [])"
      by (rule HandleStore_resolved_calls [OF resolved(1) more(3)])
    from assms(2) have False
      unfolding n by (simp split: if_splits)
    then show ?thesis ..
  qed
qed

text \<open>
  Claim C10. When a store request reaches \<open>CommitTxn\<close>, it is a last part, the
  reply carries the status of \<open>CommitTxn\<close> whatever it is, the registry entry of
  the request's key is erased, and a \<open>StoreAbortReq\<close> for the key that follows
  is answered \<open>STATUS_MALFORMED\<close> and changes nothing.
\<close>

theorem store_commit_erases_entry:
  assumes "HandleStore W msg_req frame st = (reply, st1)"
    and "CallCommitTxn k t s \<in> set (new_calls st st1)"
  shows "last_part msg_req \<and>
         k = (session_id msg_req, req_id msg_req) \<and>
         reply = MsgStoreReply (req_id msg_req) (part_nr msg_req) s \<and>
         txn_ids st1 k = None \<and>
         HandleStoreAbort W (MsgStoreAbortReq (session_id msg_req) (req_id msg_req)) st1 =
           (MsgStoreReply (req_id msg_req) 0 STATUS_MALFORMED, st1)"
  using assms by (rule HandleStore_commit)

theorem store_commit_erases_entry_witness:
  "CallCommitTxn (1, 7) 0 STATUS_IOERR \<in> set (new_calls (sample_plugin []) (snd sample_failed_commit)) \<and>
   fst sample_failed_commit = MsgStoreReply 7 1 STATUS_IOERR \<and>
   txn_ids (snd sample_failed_commit) (1, 7) = None \<and>
   HandleStoreAbort sample_Port_commit_fails (MsgStoreAbortReq 1 7) (snd sample_failed_commit) =
     (MsgStoreReply 7 0 STATUS_MALFORMED, snd sample_failed_commit)"
proof -
  have h1: "HandleStore sample_Port_commit_fails (msg_typed (sample_store 1 True))
      (sample_store 1 True) (sample_plugin []) = (fst sample_failed_commit, snd sample_failed_commit)"
    by (simp add: sample_failed_commit_def)
  have h2: "CallCommitTxn (1, 7) 0 STATUS_IOERR \<in>
      set (new_calls (sample_plugin []) (snd sample_failed_commit))"
    by (simp add: sample_failed_commit_calls)
  from store_commit_erases_entry [OF h1 h2] h2 show ?thesis
    by (simp add: sample_store_def)
qed

subsection \<open>Listings\<close>

text \<open>
  The log and the state after the loop of \<open>HandleList\<close>.
\<close>

lemma ListingNext_loop_calls:
  assumes "ListingNext_loop W lid tot records st = Some y"
  shows "\<exists>n. calls (snd (snd y)) =
           CallListingNext lid (fst y) # replicate n (CallListingNext lid STATUS_OK) @ calls st"
  using assms
proof (induct rule: ListingNext_loop.raw_induct [rotated 1, consumes 1])
  case (1 loop W lid tot records st y)
  obtain status item b where n: "ListingNext W lid (backend st) = (status, item, b)"
    by (cases "ListingNext W lid (backend st)")
  let ?st1 = "st\<lparr>backend := b, calls := CallListingNext lid status # calls st\<rparr>"
  show ?case
  proof (cases "status = STATUS_OK")
    case False
    with 1(2) n have "y = (status, records, ?st1)" by (simp add: Let_def)
    then have "calls (snd (snd y)) =
        CallListingNext lid (fst y) # replicate 0 (CallListingNext lid STATUS_OK) @ calls st"
      by simp
    then show ?thesis by blast
  next
    case True
    let ?tot1 = "tot + word_of_nat (sizeof_ObjectInfo W + length (info_description item))"
    show ?thesis
    proof (cases "kListingSize W < ?tot1")
      case True
      with 1(2) n \<open>status = STATUS_OK\<close>
      have "y = (status, records @ [list_record_of W item], ?st1)" by (simp add: Let_def)
      then have "calls (snd (snd y)) =
          CallListingNext lid (fst y) # replicate 0 (CallListingNext lid STATUS_OK) @ calls st"
        by simp
      then show ?thesis by blast
    next
      case False
      with 1(2) n \<open>status = STATUS_OK\<close>
      have "loop W lid ?tot1 (records @ [list_record_of W item]) ?st1 = Some y"
        by (simp add: Let_def)
      from 1(1) [OF this] obtain m where
        "calls (snd (snd y)) =
           CallListingNext lid (fst y) # replicate m (CallListingNext lid STATUS_OK) @ calls ?st1"
        by blast
      with \<open>status = STATUS_OK\<close> have "calls (snd (snd y)) =
           CallListingNext lid (fst y) # replicate (Suc m) (CallListingNext lid STATUS_OK) @ calls st"
        by (simp add: replicate_app_Cons_same)
      then show ?thesis by blast
    qed
  qed
qed

lemma HandleList_page_Returns:
  assumes "HandleList_page W msg_req lid st = Returns (reply, st1)"
  shows "\<exists>status records n finish.
           reply = MsgListReply (req_id msg_req) lid (status = STATUS_OUTOFBOUNDS) records
                     (if status = STATUS_OUTOFBOUNDS then STATUS_OK else status) \<and>
           calls st1 = finish @ CallListingNext lid status #
                         replicate n (CallListingNext lid STATUS_OK) @ calls st \<and>
           (if status = STATUS_OUTOFBOUNDS then list_all is_ListingEnd finish \<and> length finish = 1
            else finish = [])"
proof -
  from assms have lid: "lid \<noteq> 0"
    by (auto simp: HandleList_page_def split: if_splits)
  from assms lid obtain y where y: "ListingNext_loop W lid 0 [] st = Some y"
    by (cases "ListingNext_loop W lid 0 [] st") (auto simp: HandleList_page_def)
  obtain status records st2 where yy: "y = (status, records, st2)" by (cases y)
  from ListingNext_loop_calls [OF y] yy obtain n where
    c: "calls st2 = CallListingNext lid status # replicate n (CallListingNext lid STATUS_OK) @ calls st"
    by auto
  show ?thesis
  proof (cases "status = STATUS_OUTOFBOUNDS")
    case True
    obtain se b where e: "ListingEnd W lid (backend st2) = (se, b)"
      by (cases "ListingEnd W lid (backend st2)")
    from assms lid y yy True e
    have "reply = MsgListReply (req_id msg_req) lid True records STATUS_OK"
      and "calls st1 = [CallListingEnd lid se] @ calls st2"
      by (auto simp: HandleList_page_def)
    with c True show ?thesis
      apply (intro exI [of _ status] exI [of _ records] exI [of _ n] exI [of _ "[CallListingEnd lid se]"])
      apply simp
      done
  next
    case False
    from assms lid y yy False
    have "reply = MsgListReply (req_id msg_req) lid False records status"
      and "calls st1 = calls st2"
      by (auto simp: HandleList_page_def)
    with c False show ?thesis
      apply (intro exI [of _ status] exI [of _ records] exI [of _ n] exI [of _ "[]"])
      apply simp
      done
  qed
qed

lemma ListingNext_loop_frame:
  assumes "ListingNext_loop W lid tot records st = Some y"
  shows "snd (snd y) = st\<lparr>backend := backend (snd (snd y)), calls := calls (snd (snd y))\<rparr>"
  using assms
proof (induct rule: ListingNext_loop.raw_induct [rotated 1, consumes 1])
  case (1 loop W lid tot records st y)
  obtain status item b where n: "ListingNext W lid (backend st) = (status, item, b)"
    by (cases "ListingNext W lid (backend st)")
  let ?st1 = "st\<lparr>backend := b, calls := CallListingNext lid status # calls st\<rparr>"
  let ?tot1 = "tot + word_of_nat (sizeof_ObjectInfo W + length (info_description item))"
  show ?case
  proof (cases "status = STATUS_OK \<and> \<not> kListingSize W < ?tot1")
    case False
    with 1(2) n have "snd (snd y) = ?st1" by (auto simp: Let_def split: if_splits)
    then show ?thesis by simp
  next
    case True
    with 1(2) n
    have "loop W lid ?tot1 (records @ [list_record_of W item]) ?st1 = Some y"
      by (simp add: Let_def)
    from 1(1) [OF this]
    have "snd (snd y) = ?st1\<lparr>backend := backend (snd (snd y)), calls := calls (snd (snd y))\<rparr>" .
    then show ?thesis by (rule ssubst) simp
  qed
qed

lemma HandleList_page_frame:
  assumes "HandleList_page W msg_req lid st = Returns (reply, st1)"
  shows "st1 = st\<lparr>backend := backend st1, calls := calls st1\<rparr>"
proof -
  from assms have lid: "lid \<noteq> 0"
    by (auto simp: HandleList_page_def split: if_splits)
  from assms lid obtain y where y: "ListingNext_loop W lid 0 [] st = Some y"
    by (cases "ListingNext_loop W lid 0 [] st") (auto simp: HandleList_page_def)
  obtain status records st2 where yy: "y = (status, records, st2)" by (cases y)
  from ListingNext_loop_frame [OF y] yy
  have f: "st2 = st\<lparr>backend := backend st2, calls := calls st2\<rparr>" by simp
  obtain se b where e: "ListingEnd W lid (backend st2) = (se, b)"
    by (cases "ListingEnd W lid (backend st2)")
  from assms lid y yy e have "st1 = st2 \<or> st1 = st2\<lparr>backend := b, calls := CallListingEnd lid se # calls st2\<rparr>"
    by (auto simp: HandleList_page_def split: if_splits)
  then show ?thesis
  proof
    assume "st1 = st2" with f show ?thesis by simp
  next
    assume a: "st1 = st2\<lparr>backend := b, calls := CallListingEnd lid se # calls st2\<rparr>"
    show ?thesis by (subst a, subst f) (simp add: a)
  qed
qed


















subsection \<open>The transaction registry\<close>






























subsection \<open>Capabilities\<close>




















subsection \<open>The supervisor\<close>

text \<open>
  The sample supervisor is what two accepted connections give, whatever the
  uninitialised \<open>revents\<close> were: the next pass of the loop resets the
  \<open>revents\<close> of every watched descriptor and \<open>poll\<close> sets them.
\<close>

lemma sample_supervisor_connections:
  "map (\<lambda>p. p\<lparr>revents := 0\<rparr>)
     (watch_fds (New_connection 6 r6 (New_connection 5 r5
       \<lparr>cache_plugin = sample_plugin [],
        watch_fds = [\<lparr>fd = 3, events = 3, revents = 0\<rparr>, \<lparr>fd = 4, events = 3, revents = 0\<rparr>],
        closed = []\<rparr>))) =
   map (\<lambda>p. p\<lparr>revents := 0\<rparr>) (watch_fds sample_supervisor) \<and>
   cache_plugin (New_connection 6 r6 (New_connection 5 r5
       \<lparr>cache_plugin = sample_plugin [],
        watch_fds = [\<lparr>fd = 3, events = 3, revents = 0\<rparr>, \<lparr>fd = 4, events = 3, revents = 0\<rparr>],
        closed = []\<rparr>)) =
   cache_plugin sample_supervisor"
  by (simp add: sample_supervisor_def New_connection_def sample_plugin_def CachePlugin_ctor_def
        insert_commute)

lemma sample_supervisor_run:
  "New_request sample_Port sample_quit 2 sample_supervisor = Returns sample_supervisor_after"
  by (simp add: sample_supervisor_def sample_supervisor_after_def sample_quit_def
        HandleRequest_def erase_def numeral_3_eq_3 numeral_2_eq_2 sample_plugin_def
        CachePlugin_ctor_def) auto

text \<open>
  Claim C4 at two connections of which the first quits: descriptor 5 is closed
  and removed from the watched descriptors, but it is descriptor 6, the element
  that moved to the index of the erased one, that is removed from the connection
  set. The closed descriptor stays in the connection set, and the open one is
  lost from it.
\<close>

theorem closed_connection_stays_registered:
  "New_request sample_Port sample_quit 2 sample_supervisor = Returns sample_supervisor_after \<and>
   closed sample_supervisor_after = [5] \<and>
   5 \<in> connections (cache_plugin sample_supervisor_after) \<and>
   map fd (watch_fds sample_supervisor_after) = [3, 4, 6] \<and>
   6 \<notin> connections (cache_plugin sample_supervisor_after)"
  by (intro conjI sample_supervisor_run) (simp_all add: sample_supervisor_after_def)

text \<open>
  When the connection that quits is the last element of the vector, the
  descriptor to remove from the connection set is read beyond the end of the
  vector.
\<close>

lemma last_connection_read_beyond_end:
  "New_request sample_Port sample_quit 2
     (sample_supervisor\<lparr>watch_fds := butlast (watch_fds sample_supervisor)\<rparr>) =
     UndefinedBehaviour"
  by (simp add: sample_supervisor_def sample_quit_def HandleRequest_def erase_def
        numeral_3_eq_3 numeral_2_eq_2)

subsection \<open>Identifiers\<close>

text \<open>
  A 64-bit counter that starts at \<open>c\<close> hands out increasing values, none of
  them zero when \<open>c\<close> is not, as long as it does not wrap around.
\<close>

lemma counter_increasing:
  assumes "unat c + n \<le> 2 ^ 64"
  shows "sorted_wrt (<) (map (\<lambda>i. (c :: uint64) + of_nat i) [0..<n])"
proof -
  have "c + of_nat i < c + of_nat j" if "i < j" "j < n" for i j
  proof -
    from that assms have "unat c + i < 2 ^ 64" "unat c + j < 2 ^ 64" by simp_all
    then have "unat (c + of_nat i) = unat c + i" "unat (c + of_nat j) = unat c + j"
      by (simp_all add: unat_word_ariths unat_of_nat)
    with that show ?thesis by (simp add: word_less_nat_alt)
  qed
  then show ?thesis
    by (simp add: sorted_wrt_iff_nth_less)
qed

lemma counter_nonzero:
  assumes "unat c + n \<le> 2 ^ 64" "c \<noteq> 0"
  shows "0 \<notin> set (map (\<lambda>i. (c :: uint64) + of_nat i) [0..<n])"
proof
  assume "0 \<in> set (map (\<lambda>i. c + of_nat i) [0..<n])"
  then obtain i where i: "i < n" "c + of_nat i = 0" by auto
  from i(1) assms(1) have "unat c + i < 2 ^ 64" by simp
  then have "unat (c + of_nat i) = unat c + i"
    by (simp add: unat_word_ariths unat_of_nat)
  with i(2) have "unat c = 0" by simp
  with assms(2) show False by (simp add: unat_eq_0)
qed

text \<open>
  A request takes at most one id from a counter.
\<close>

lemma counter_step:
  assumes "ids1 = ids \<and> c1 = c \<or> ids1 = ids @ [c] \<and> c1 = c + 1"
  shows "\<exists>k\<le>1. ids1 = ids @ map (\<lambda>i. (c :: uint64) + of_nat i) [0..<k] \<and> c1 = c + of_nat k"
  using assms
proof
  assume "ids1 = ids \<and> c1 = c"
  then show ?thesis by (intro exI [of _ 0]) simp
next
  assume "ids1 = ids @ [c] \<and> c1 = c + 1"
  then show ?thesis by (intro exI [of _ 1]) simp
qed

lemma counter_steps:
  assumes "k1 \<le> (1 :: nat)" "ids1 = ids @ map (\<lambda>i. (c :: uint64) + of_nat i) [0..<k1]"
    "c1 = c + of_nat k1"
    "k2 \<le> n" "ids2 = ids1 @ map (\<lambda>i. c1 + of_nat i) [0..<k2]" "c2 = c1 + of_nat k2"
  shows "\<exists>k\<le>Suc n. ids2 = ids @ map (\<lambda>i. c + of_nat i) [0..<k] \<and> c2 = c + of_nat k"
proof -
  have "[0..<k1 + k2] = [0..<k1] @ [k1..<k1 + k2]"
    by (rule upt_add_eq_append) simp
  also have "[k1..<k1 + k2] = map (\<lambda>i. i + k1) [0..<k2]"
    by (simp only: map_add_upt add.commute [of k2 k1])
  finally have "map (\<lambda>i. c + of_nat i) [0..<k1 + k2] =
      map (\<lambda>i. c + of_nat i) [0..<k1] @ map (\<lambda>i. c + of_nat k1 + of_nat i) [0..<k2]"
    by (simp add: o_def add.assoc add.commute)
  with assms show ?thesis
    by (intro exI [of _ "k1 + k2"]) (simp add: add.assoc)
qed

lemma transaction_ids_append:
  "transaction_ids (cs @ cs') = transaction_ids cs' @ transaction_ids cs"
  by (induction cs rule: transaction_ids.induct) simp_all

lemma listing_ids_append:
  "listing_ids (cs @ cs') = listing_ids cs' @ listing_ids cs"
  by (induction cs rule: listing_ids.induct) simp_all

lemma session_ids_Cons:
  "session_ids (r # rs) = session_ids [r] @ session_ids rs"
  by (cases "(r # rs)" rule: session_ids.cases) simp_all

lemma listing_ids_replicate:
  "listing_ids (replicate n (CallListingNext l s)) = []"
  by (induction n) simp_all

lemma transaction_ids_replicate:
  "transaction_ids (replicate n (CallListingNext l s)) = []"
  by (induction n) simp_all

text \<open>
  The ids that a request takes, handler by handler.
\<close>

lemma HandleStore_txn_ids:
  assumes "HandleStore_txn W oid msg_req st = r"
    and "st1 = (case r of Inl (reply, s) \<Rightarrow> s | Inr (t, s) \<Rightarrow> s)"
  shows "next_session_id st1 = next_session_id st \<and> next_lst_id st1 = next_lst_id st \<and>
         listing_ids (calls st1) = listing_ids (calls st) \<and>
         (transaction_ids (calls st1) = transaction_ids (calls st) \<and>
            next_txn_id st1 = next_txn_id st \<or>
          transaction_ids (calls st1) = transaction_ids (calls st) @ [next_txn_id st] \<and>
            next_txn_id st1 = next_txn_id st + 1)"
  using assms
  by (auto simp: HandleStore_txn_def NextTxnId_def Let_def
           split: if_splits option.splits prod.splits)

lemma HandleStore_write_ids:
  assumes "HandleStore_write W msg_req frame t st = (reply, st1)"
  shows "next_session_id st1 = next_session_id st \<and> next_lst_id st1 = next_lst_id st \<and>
         next_txn_id st1 = next_txn_id st \<and>
         listing_ids (calls st1) = listing_ids (calls st) \<and>
         transaction_ids (calls st1) = transaction_ids (calls st)"
  using assms
  by (auto simp: HandleStore_write_def Let_def split: if_splits prod.splits)

lemma HandleStore_reply:
  assumes "HandleStore W msg_req frame st = (reply, st1)"
  shows "session_ids [Some reply] = []"
  using assms
proof (cases rule: HandleStore_cases)
  case gate
  then show ?thesis by simp
next
  case (early oid)
  then show ?thesis
    by (auto simp: HandleStore_txn_def NextTxnId_def Let_def
             split: if_splits option.splits prod.splits)
next
  case (resolved oid t st2)
  from resolved(2) show ?thesis
    by (cases rule: HandleStore_write_cases) simp_all
qed

lemma HandleStore_ids:
  assumes "HandleStore W msg_req frame st = (reply, st1)"
  shows "session_ids [Some reply] = [] \<and>
         next_session_id st1 = next_session_id st \<and> next_lst_id st1 = next_lst_id st \<and>
         listing_ids (calls st1) = listing_ids (calls st) \<and>
         (transaction_ids (calls st1) = transaction_ids (calls st) \<and>
            next_txn_id st1 = next_txn_id st \<or>
          transaction_ids (calls st1) = transaction_ids (calls st) @ [next_txn_id st] \<and>
            next_txn_id st1 = next_txn_id st + 1)"
proof -
  note r = HandleStore_reply [OF assms]
  from assms show ?thesis
  proof (cases rule: HandleStore_cases)
    case gate
    with r show ?thesis by simp
  next
    case (early oid)
    from HandleStore_txn_ids [OF early] r show ?thesis by simp
  next
    case (resolved oid t st2)
    from HandleStore_txn_ids [OF resolved(1)] HandleStore_write_ids [OF resolved(2)] r
    show ?thesis by simp
  qed
qed

lemma HandleList_page_ids:
  assumes "HandleList_page W msg_req lid st = Returns (reply, st1)"
  shows "session_ids [Some reply] = [] \<and>
         next_session_id st1 = next_session_id st \<and> next_lst_id st1 = next_lst_id st \<and>
         next_txn_id st1 = next_txn_id st \<and>
         listing_ids (calls st1) = listing_ids (calls st) \<and>
         transaction_ids (calls st1) = transaction_ids (calls st)"
proof -
  from HandleList_page_frame [OF assms]
  have f: "next_session_id st1 = next_session_id st \<and> next_lst_id st1 = next_lst_id st \<and>
         next_txn_id st1 = next_txn_id st"
    by (rule ssubst) simp
  from HandleList_page_Returns [OF assms] obtain status records n finish where
    r: "reply = MsgListReply (req_id msg_req) lid (status = STATUS_OUTOFBOUNDS) records
                     (if status = STATUS_OUTOFBOUNDS then STATUS_OK else status)"
    and c: "calls st1 = finish @ CallListingNext lid status #
                         replicate n (CallListingNext lid STATUS_OK) @ calls st"
    and e: "if status = STATUS_OUTOFBOUNDS then list_all is_ListingEnd finish \<and> length finish = 1
            else finish = []"
    by blast
  from e have "listing_ids finish = [] \<and> transaction_ids finish = []"
  proof (cases finish)
    case (Cons x xs)
    with e have "xs = []" "is_ListingEnd x" by (simp_all split: if_splits)
    with Cons show ?thesis by (cases x) simp_all
  qed simp
  with c have "listing_ids (calls st1) = listing_ids (calls st) \<and>
      transaction_ids (calls st1) = transaction_ids (calls st)"
    by (simp add: listing_ids_append transaction_ids_append listing_ids_replicate
          transaction_ids_replicate)
  with f r show ?thesis by simp
qed

lemma HandleList_ids:
  assumes "HandleList W msg_req st = Returns (reply, st1)"
  shows "session_ids [Some reply] = [] \<and>
         next_session_id st1 = next_session_id st \<and> next_txn_id st1 = next_txn_id st \<and>
         transaction_ids (calls st1) = transaction_ids (calls st) \<and>
         (listing_ids (calls st1) = listing_ids (calls st) \<and>
            next_lst_id st1 = next_lst_id st \<or>
          listing_ids (calls st1) = listing_ids (calls st) @ [next_lst_id st] \<and>
            next_lst_id st1 = next_lst_id st + 1)"
proof (cases "listing_id msg_req = 0")
  case False
  with assms have "HandleList_page W msg_req (listing_id msg_req) st = Returns (reply, st1)"
    by (simp add: HandleList_def)
  from HandleList_page_ids [OF this] show ?thesis by simp
next
  case True
  obtain s b where lb: "ListingBegin W (next_lst_id st) (list_object_type msg_req) (backend st) = (s, b)"
    by (cases "ListingBegin W (next_lst_id st) (list_object_type msg_req) (backend st)")
  let ?c = "CallListingBegin (next_lst_id st) (list_object_type msg_req) s"
  let ?st2 = "st\<lparr>next_lst_id := next_lst_id st + 1, backend := b, calls := ?c # calls st\<rparr>"
  show ?thesis
  proof (cases "s = STATUS_OK")
    case False
    with assms True lb have "st1 = ?st2" "reply = MsgListReply (req_id msg_req) 0 True [] s"
      by (simp_all add: HandleList_def NextLstId_def)
    then show ?thesis by simp
  next
    case ok: True
    with assms True lb
    have p: "HandleList_page W msg_req (next_lst_id st) ?st2 = Returns (reply, st1)"
      by (simp add: HandleList_def NextLstId_def)
    from HandleList_page_ids [OF p] show ?thesis by simp
  qed
qed

lemma HandleRequest_ids:
  assumes "HandleRequest W f st = Returns (p, r, st1)"
  shows "(session_ids [r] = [] \<and> next_session_id st1 = next_session_id st \<or>
          session_ids [r] = [] @ [next_session_id st] \<and>
            next_session_id st1 = next_session_id st + 1) \<and>
         (transaction_ids (calls st1) = transaction_ids (calls st) \<and>
            next_txn_id st1 = next_txn_id st \<or>
          transaction_ids (calls st1) = transaction_ids (calls st) @ [next_txn_id st] \<and>
            next_txn_id st1 = next_txn_id st + 1) \<and>
         (listing_ids (calls st1) = listing_ids (calls st) \<and>
            next_lst_id st1 = next_lst_id st \<or>
          listing_ids (calls st1) = listing_ids (calls st) @ [next_lst_id st] \<and>
            next_lst_id st1 = next_lst_id st + 1)"
proof (cases f)
  case None
  with assms show ?thesis by (simp add: HandleRequest_def)
next
  case (Some frame)
  show ?thesis
  proof (cases "msg_typed frame")
    case MsgHandshake
    with assms Some show ?thesis
      by (auto simp: HandleRequest_def sent_def HandleHandshake_def NextSessionId_def)
  next
    case MsgQuit
    with assms Some show ?thesis by (simp add: HandleRequest_def)
  next
    case (MsgRefcountReq rid oid c)
    with assms Some show ?thesis
      by (auto simp: HandleRequest_def sent_def HandleRefcount_def split: option.splits prod.splits)
  next
    case (MsgObjectInfoReq rid oid)
    with assms Some show ?thesis
      by (auto simp: HandleRequest_def sent_def HandleObjectInfo_def
               split: option.splits prod.splits if_splits)
  next
    case (MsgReadReq rid oid off sz)
    with assms Some show ?thesis
      by (auto simp: HandleRequest_def sent_def HandleRead_def
               split: option.splits prod.splits if_splits)
  next
    case (MsgStoreReq sid rid oid pn lp es ot ds)
    with assms Some have "HandleStore W (msg_typed frame) frame st = (the r, st1)" "r = Some (the r)"
      by (auto simp: HandleRequest_def sent_def)
    with HandleStore_ids [of W "msg_typed frame" frame st "the r" st1] show ?thesis
      by metis
  next
    case (MsgStoreAbortReq sid rid)
    with assms Some show ?thesis
      by (auto simp: HandleRequest_def sent_def HandleStoreAbort_def Let_def
               split: option.splits prod.splits)
  next
    case (MsgInfoReq rid)
    with assms Some show ?thesis
      by (auto simp: HandleRequest_def sent_def HandleInfo_def split: prod.splits)
  next
    case (MsgShrinkReq rid n)
    with assms Some show ?thesis
      by (auto simp: HandleRequest_def sent_def HandleShrink_def split: prod.splits)
  next
    case (MsgListReq rid lid t)
    with assms Some have "HandleList W (msg_typed frame) st = Returns (the r, st1)" "r = Some (the r)"
      by (auto simp: HandleRequest_def sent_def split: Outcome.splits)
    with HandleList_ids [of W "msg_typed frame" st "the r" st1] show ?thesis
      by metis
  next
    case (MsgOther x)
    with assms Some show ?thesis by (simp add: HandleRequest_def)
  qed
qed

text \<open>
  A run takes at most as many ids from a counter as it serves requests.
\<close>

lemma HandleRequests_sent_ids:
  assumes "HandleRequests_sent W frames st = Returns (replies, st1)"
  shows "(\<exists>k\<le>length frames.
            session_ids replies = [] @ map (\<lambda>i. next_session_id st + of_nat i) [0..<k] \<and>
            next_session_id st1 = next_session_id st + of_nat k) \<and>
         (\<exists>k\<le>length frames.
            transaction_ids (calls st1) =
              transaction_ids (calls st) @ map (\<lambda>i. next_txn_id st + of_nat i) [0..<k] \<and>
            next_txn_id st1 = next_txn_id st + of_nat k) \<and>
         (\<exists>k\<le>length frames.
            listing_ids (calls st1) =
              listing_ids (calls st) @ map (\<lambda>i. next_lst_id st + of_nat i) [0..<k] \<and>
            next_lst_id st1 = next_lst_id st + of_nat k)"
  using assms
proof (induction frames arbitrary: st replies)
  case Nil
  then show ?case by simp
next
  case (Cons f fs)
  from Cons.prems obtain p r st2 rs where
    h: "HandleRequest W f st = Returns (p, r, st2)"
    and t: "HandleRequests_sent W fs st2 = Returns (rs, st1)"
    and e: "replies = r # rs"
    by (auto split: Outcome.splits)
  note step = HandleRequest_ids [OF h]
  note run = Cons.IH [OF t]
  from step have "\<exists>k\<le>1. session_ids [r] = [] @ map (\<lambda>i. next_session_id st + of_nat i) [0..<k] \<and>
      next_session_id st2 = next_session_id st + of_nat k"
    by (intro counter_step) simp
  then obtain k1 where 1: "k1 \<le> 1"
    "session_ids [r] = [] @ map (\<lambda>i. next_session_id st + of_nat i) [0..<k1]"
    "next_session_id st2 = next_session_id st + of_nat k1" by blast
  from run obtain k2 where 2: "k2 \<le> length fs"
    "session_ids rs = [] @ map (\<lambda>i. next_session_id st2 + of_nat i) [0..<k2]"
    "next_session_id st1 = next_session_id st2 + of_nat k2" by blast
  from 1(2) 2(2) e have 3: "session_ids replies =
      session_ids [r] @ map (\<lambda>i. next_session_id st2 + of_nat i) [0..<k2]"
    by (subst e, subst session_ids_Cons) simp
  from counter_steps [OF 1 2(1) 3 2(3)]
  have s: "\<exists>k\<le>length (f # fs).
      session_ids replies = [] @ map (\<lambda>i. next_session_id st + of_nat i) [0..<k] \<and>
      next_session_id st1 = next_session_id st + of_nat k" by simp
  from step have "\<exists>k\<le>1. transaction_ids (calls st2) =
        transaction_ids (calls st) @ map (\<lambda>i. next_txn_id st + of_nat i) [0..<k] \<and>
      next_txn_id st2 = next_txn_id st + of_nat k"
    by (intro counter_step) simp
  then obtain j1 where 4: "j1 \<le> 1"
    "transaction_ids (calls st2) =
        transaction_ids (calls st) @ map (\<lambda>i. next_txn_id st + of_nat i) [0..<j1]"
    "next_txn_id st2 = next_txn_id st + of_nat j1" by blast
  from run obtain j2 where 5: "j2 \<le> length fs"
    "transaction_ids (calls st1) =
        transaction_ids (calls st2) @ map (\<lambda>i. next_txn_id st2 + of_nat i) [0..<j2]"
    "next_txn_id st1 = next_txn_id st2 + of_nat j2" by blast
  from counter_steps [OF 4 5]
  have t: "\<exists>k\<le>length (f # fs).
      transaction_ids (calls st1) =
        transaction_ids (calls st) @ map (\<lambda>i. next_txn_id st + of_nat i) [0..<k] \<and>
      next_txn_id st1 = next_txn_id st + of_nat k" by simp
  from step have "\<exists>k\<le>1. listing_ids (calls st2) =
        listing_ids (calls st) @ map (\<lambda>i. next_lst_id st + of_nat i) [0..<k] \<and>
      next_lst_id st2 = next_lst_id st + of_nat k"
    by (intro counter_step) simp
  then obtain l1 where 6: "l1 \<le> 1"
    "listing_ids (calls st2) =
        listing_ids (calls st) @ map (\<lambda>i. next_lst_id st + of_nat i) [0..<l1]"
    "next_lst_id st2 = next_lst_id st + of_nat l1" by blast
  from run obtain l2 where 7: "l2 \<le> length fs"
    "listing_ids (calls st1) =
        listing_ids (calls st2) @ map (\<lambda>i. next_lst_id st2 + of_nat i) [0..<l2]"
    "next_lst_id st1 = next_lst_id st2 + of_nat l2" by blast
  from counter_steps [OF 6 7]
  have l: "\<exists>k\<le>length (f # fs).
      listing_ids (calls st1) =
        listing_ids (calls st) @ map (\<lambda>i. next_lst_id st + of_nat i) [0..<k] \<and>
      next_lst_id st1 = next_lst_id st + of_nat k" by simp
  from s t l show ?case by blast
qed

text \<open>
  The assertion of \<open>HandleList\<close> holds as long as the listing counter has not
  wrapped around, and no handler reads beyond a vector.
\<close>

lemma HandleRequest_asserts:
  assumes "next_lst_id st \<noteq> 0"
  shows "HandleRequest W f st \<noteq> AssertionFailed \<and> HandleRequest W f st \<noteq> UndefinedBehaviour"
proof (cases f)
  case None
  then show ?thesis by (simp add: HandleRequest_def)
next
  case (Some frame)
  have "HandleList W (msg_typed frame) st \<noteq> AssertionFailed \<and>
        HandleList W (msg_typed frame) st \<noteq> UndefinedBehaviour"
    using assms
    by (auto simp: HandleList_def HandleList_page_def NextLstId_def Let_def
             split: prod.splits option.splits if_splits)
  with Some show ?thesis
    by (cases "msg_typed frame")
       (auto simp: HandleRequest_def sent_def split: Outcome.splits)
qed

lemma HandleRequests_sent_asserts:
  assumes "frames = [] \<or> next_lst_id st \<noteq> 0 \<and> unat (next_lst_id st) + length frames \<le> 2 ^ 64"
  shows "HandleRequests_sent W frames st \<noteq> AssertionFailed \<and>
         HandleRequests_sent W frames st \<noteq> UndefinedBehaviour"
  using assms
proof (induction frames arbitrary: st)
  case Nil
  show ?case by simp
next
  case (Cons f fs)
  then have n: "next_lst_id st \<noteq> 0" and u: "unat (next_lst_id st) + Suc (length fs) \<le> 2 ^ 64"
    by simp_all
  note a = HandleRequest_asserts [OF n, of W f]
  show ?case
  proof (cases "HandleRequest W f st")
    case (Returns x)
    obtain p r st2 where x: "x = (p, r, st2)" by (cases x)
    from HandleRequest_ids [OF Returns [unfolded x]]
    have c: "next_lst_id st2 = next_lst_id st \<or> next_lst_id st2 = next_lst_id st + 1" by blast
    have "fs = [] \<or> next_lst_id st2 \<noteq> 0 \<and> unat (next_lst_id st2) + length fs \<le> 2 ^ 64"
    proof (cases fs)
      case (Cons g gs)
      with u have v: "unat (next_lst_id st) + 1 < 2 ^ 64" by simp
      then have w: "unat (next_lst_id st + 1) = unat (next_lst_id st) + 1"
        by (simp add: unat_word_ariths)
      then have "next_lst_id st + 1 \<noteq> 0" by (metis Suc_eq_plus1 nat.distinct(1) unat_0)
      with c n u w show ?thesis by auto
    qed simp
    from Cons.IH [OF this, of] Returns x show ?thesis
      by (simp split: Outcome.splits)
  qed (use a in simp_all)
qed

text \<open>
  Claim C7. In every run of the plugin from its construction that serves fewer
  than \<open>2 ^ 64\<close> requests (a request takes at most one id from each of the
  three 64-bit counters, so none of them wraps around): the assertion of
  \<open>HandleList\<close> on the listing id does not fail, and when the run returns, the
  session ids of the handshake acknowledgements sent, the transaction ids
  passed to \<open>StartTxn\<close> and the listing ids passed to \<open>ListingBegin\<close> for the
  list requests with listing id 0 are each strictly increasing in the order
  in which they were handed out, and none of the listing ids is zero.
\<close>

theorem fresh_ids:
  fixes W :: "('b, 'mh, 'h) Port"
  assumes "length frames < 2 ^ 64"
  shows "case HandleRequests_sent W frames (CachePlugin_ctor caps m nm b) of
           Returns (replies, st) \<Rightarrow>
             sorted_wrt (<) (session_ids replies) \<and>
             sorted_wrt (<) (transaction_ids (calls st)) \<and>
             sorted_wrt (<) (listing_ids (calls st)) \<and>
             0 \<notin> set (listing_ids (calls st))
         | AssertionFailed \<Rightarrow> False
         | UndefinedBehaviour \<Rightarrow> False
         | Diverges \<Rightarrow> True"
proof (cases "HandleRequests_sent W frames (CachePlugin_ctor caps m nm b)")
  case (Returns x)
  obtain replies st where x: "x = (replies, st)" by (cases x)
  let ?st0 = "CachePlugin_ctor caps m nm b :: ('b, 'h) CachePlugin"
  have 0: "next_session_id ?st0 = 0" "next_txn_id ?st0 = 0" "next_lst_id ?st0 = 1"
    "calls ?st0 = []"
    by (simp_all add: CachePlugin_ctor_def)
  from HandleRequests_sent_ids [OF Returns [unfolded x]] obtain k j l where
    k: "k \<le> length frames" "session_ids replies = map (\<lambda>i. 0 + of_nat i) [0..<k]"
    and j: "j \<le> length frames" "transaction_ids (calls st) = map (\<lambda>i. 0 + of_nat i) [0..<j]"
    and l: "l \<le> length frames" "listing_ids (calls st) = map (\<lambda>i. 1 + of_nat i) [0..<l]"
    unfolding 0 by auto
  from assms k(1) j(1) l(1) have
    "unat (0 :: uint64) + k \<le> 2 ^ 64" "unat (0 :: uint64) + j \<le> 2 ^ 64"
    "unat (1 :: uint64) + l \<le> 2 ^ 64"
    by simp_all
  then have "sorted_wrt (<) (map (\<lambda>i. (0 :: uint64) + of_nat i) [0..<k])"
    "sorted_wrt (<) (map (\<lambda>i. (0 :: uint64) + of_nat i) [0..<j])"
    "sorted_wrt (<) (map (\<lambda>i. (1 :: uint64) + of_nat i) [0..<l])"
    "0 \<notin> set (map (\<lambda>i. (1 :: uint64) + of_nat i) [0..<l])"
    by (simp_all only: counter_increasing counter_nonzero one_neq_zero not_False_eq_True)
  with k(2) j(2) l(2) Returns x show ?thesis by simp
next
  case AssertionFailed
  have "next_lst_id (CachePlugin_ctor caps m nm b :: ('b, 'h) CachePlugin) = 1"
    by (simp add: CachePlugin_ctor_def)
  with assms HandleRequests_sent_asserts [of frames "CachePlugin_ctor caps m nm b" W]
    AssertionFailed show ?thesis by simp
next
  case UndefinedBehaviour
  have "next_lst_id (CachePlugin_ctor caps m nm b :: ('b, 'h) CachePlugin) = 1"
    by (simp add: CachePlugin_ctor_def)
  with assms HandleRequests_sent_asserts [of frames "CachePlugin_ctor caps m nm b" W]
    UndefinedBehaviour show ?thesis by simp
next
  case Diverges
  then show ?thesis by simp
qed

lemma sample_session_run:
  "HandleRequests_sent sample_Port sample_session (sample_plugin []) =
     Returns ([Some (MsgHandshakeAck STATUS_OK ''sample'' 1 4 0 0),
               Some (MsgHandshakeAck STATUS_OK ''sample'' 1 4 1 0),
               Some (MsgStoreReply 7 1 STATUS_OK), Some (MsgStoreReply 7 1 STATUS_OK),
               Some (MsgListReply 9 1 True [] STATUS_OK),
               Some (MsgListReply 9 2 True [] STATUS_OK)],
              sample_session_end)"
  by (simp add: sample_session_def sample_session_end_def request_defs store_defs list_defs
        sample_defs HandleHandshake_def NextSessionId_def)

theorem fresh_ids_witness:
  "length sample_session < 2 ^ 64 \<and>
   HandleRequests_sent sample_Port sample_session (CachePlugin_ctor 0 4 ''sample'' []) =
     Returns ([Some (MsgHandshakeAck STATUS_OK ''sample'' 1 4 0 0),
               Some (MsgHandshakeAck STATUS_OK ''sample'' 1 4 1 0),
               Some (MsgStoreReply 7 1 STATUS_OK), Some (MsgStoreReply 7 1 STATUS_OK),
               Some (MsgListReply 9 1 True [] STATUS_OK),
               Some (MsgListReply 9 2 True [] STATUS_OK)],
              sample_session_end) \<and>
   session_ids [Some (MsgHandshakeAck STATUS_OK ''sample'' 1 4 0 0),
               Some (MsgHandshakeAck STATUS_OK ''sample'' 1 4 1 0),
               Some (MsgStoreReply 7 1 STATUS_OK), Some (MsgStoreReply 7 1 STATUS_OK),
               Some (MsgListReply 9 1 True [] STATUS_OK :: nat Reply),
               Some (MsgListReply 9 2 True [] STATUS_OK)] = [0, 1] \<and>
   transaction_ids (calls sample_session_end) = [0, 1] \<and>
   listing_ids (calls sample_session_end) = [1, 2] \<and>
   sorted_wrt (<) (listing_ids (calls sample_session_end)) \<and>
   0 \<notin> set (listing_ids (calls sample_session_end))"
proof -
  have h: "length sample_session < 2 ^ 64" by (simp add: sample_session_def)
  have r: "HandleRequests_sent sample_Port sample_session (CachePlugin_ctor 0 4 ''sample'' []) =
     Returns ([Some (MsgHandshakeAck STATUS_OK ''sample'' 1 4 0 0),
               Some (MsgHandshakeAck STATUS_OK ''sample'' 1 4 1 0),
               Some (MsgStoreReply 7 1 STATUS_OK), Some (MsgStoreReply 7 1 STATUS_OK),
               Some (MsgListReply 9 1 True [] STATUS_OK),
               Some (MsgListReply 9 2 True [] STATUS_OK)],
              sample_session_end)"
    using sample_session_run by (simp add: sample_plugin_def)
  have i: "transaction_ids (calls sample_session_end) = [0, 1]"
    "listing_ids (calls sample_session_end) = [1, 2]"
    by (simp_all add: sample_session_end_def)
  from fresh_ids [OF h, of sample_Port 0 4 "''sample''" "[]"] h r i show ?thesis
    by simp
qed

subsection \<open>Polymorphic construction\<close>

lemma LazilyRegisterPlugins_inv:
  assumes "poly_inv s"
  shows "LazilyRegisterPlugins s =
           \<lparr>registered_plugins = [First_plugin, Second_plugin, Third_plugin],
            register_plugin_calls = 1\<rparr>"
  using assms
  by (auto simp: poly_inv_def no_plugins_def LazilyRegisterPlugins_def RegisterPlugins_def
        RegisterPlugin_def)

lemma poly_calls_inv:
  assumes "poly_inv s"
  shows "poly_inv (poly_calls cs s)"
  using assms
proof (induction cs arbitrary: s)
  case Nil
  then show ?case by simp
next
  case (Cons c cs)
  from LazilyRegisterPlugins_inv [OF Cons.prems]
  have "poly_inv (LazilyRegisterPlugins s)" by (simp add: poly_inv_def)
  then show ?case
    by (cases c) (simp_all add: Construct_def Introspect_def Let_def Cons.IH)
qed

text \<open>
  Claim C9. After any sequence of \<open>Construct\<close> and \<open>Introspect\<close> calls of a
  process, the registration routine has run at most once, and exactly once
  after one more \<open>Construct\<close> or \<open>Introspect\<close>; for every decision value at
  most one registered factory accepts it, and \<open>Construct\<close> returns an instance
  made by that factory, or no instance when no registered factory accepts the
  value: an instance of the first, second or third mock class for the types 0,
  1 and 2, and none for any other type.
\<close>

theorem polymorphic_construction:
  "register_plugin_calls (poly_calls cs no_plugins) \<le> 1 \<and>
   register_plugin_calls (snd (Construct param (poly_calls cs no_plugins))) = 1 \<and>
   register_plugin_calls (snd (Introspect (poly_calls cs no_plugins))) = 1 \<and>
   length (accepting param (snd (Construct param (poly_calls cs no_plugins)))) \<le> 1 \<and>
   fst (Construct param (poly_calls cs no_plugins)) =
     (case accepting param (snd (Construct param (poly_calls cs no_plugins))) of
        [] \<Rightarrow> None
      | p # ps \<Rightarrow> Some (plugin_Construct p param)) \<and>
   fst (Construct param (poly_calls cs no_plugins)) =
     (if decision_type param = 0 then Some (FirstPolyCtorMock param)
      else if decision_type param = 1 then Some (SecondPolyCtorMock param)
      else if decision_type param = 2 then Some (ThirdPolyCtorMock param)
      else None)"
proof -
  have i: "poly_inv (poly_calls cs no_plugins)"
    by (rule poly_calls_inv) (simp add: poly_inv_def)
  note l = LazilyRegisterPlugins_inv [OF i]
  from i have 1: "register_plugin_calls (poly_calls cs no_plugins) \<le> 1"
    by (auto simp: poly_inv_def no_plugins_def)
  have 2: "snd (Construct param (poly_calls cs no_plugins)) =
      \<lparr>registered_plugins = [First_plugin, Second_plugin, Third_plugin],
       register_plugin_calls = 1\<rparr>"
    "snd (Introspect (poly_calls cs no_plugins)) =
      \<lparr>registered_plugins = [First_plugin, Second_plugin, Third_plugin],
       register_plugin_calls = 1\<rparr>"
    by (simp_all add: Construct_def Introspect_def Let_def l)
  have 3: "fst (Construct param (poly_calls cs no_plugins)) =
     (if decision_type param = 0 then Some (FirstPolyCtorMock param)
      else if decision_type param = 1 then Some (SecondPolyCtorMock param)
      else if decision_type param = 2 then Some (ThirdPolyCtorMock param)
      else None)"
    by (simp add: Construct_def Let_def l First_plugin_def Second_plugin_def Third_plugin_def)
  have 4: "accepting param \<lparr>registered_plugins = [First_plugin, Second_plugin, Third_plugin],
       register_plugin_calls = 1\<rparr> =
     (if decision_type param = 0 then [First_plugin]
      else if decision_type param = 1 then [Second_plugin]
      else if decision_type param = 2 then [Third_plugin]
      else [])"
    by (simp add: accepting_def First_plugin_def Second_plugin_def Third_plugin_def)
  show ?thesis
    unfolding 2 3 4 using 1
    by (simp add: First_plugin_def Second_plugin_def Third_plugin_def)
qed

end
